theory Spec2Isabelle
  imports Complex_Main
begin

section \<open>Physics: atmosphere and drag model (src/physics.py)\<close>

text \<open>
  Python floats are modelled as the real numbers: every arithmetic operation is the exact
  one, \<open>**\<close> on a positive base is \<open>powr\<close>, and \<open>np.pi\<close>, \<open>np.cos\<close>, \<open>np.sin\<close> are
  \<open>pi\<close>, \<open>cos\<close>, \<open>sin\<close>. Exceptions of the source are values of type \<open>error\<close>.
\<close>

datatype error = KeyError | IndexError | ZeroDivisionError

text \<open>The constants set in \<open>PhysicsCalculator.__init__\<close>.\<close>

definition g :: real where
  "g = 981 / 100"

definition rho0 :: real where
  "rho0 = 1225 / 1000"

definition T0 :: real where
  "T0 = 28815 / 100"

definition L :: real where
  "L = 65 / 10000"

definition calculate_air_density :: "real \<Rightarrow> real" where
  "calculate_air_density altitude =
     (let altitude = (if altitude < 0 then 0 else altitude);
          temperature_ratio = 1 - (L * altitude / T0)
      in if temperature_ratio \<le> 0 then 1 / 1000
         else max (rho0 * (temperature_ratio powr (52561 / 10000))) (1 / 1000))"

text \<open>
  The base force \<open>0.5 * rho * velocity**2 * drag_coefficient * area\<close> of
  \<open>calculate_drag_force\<close>, with \<open>area = np.pi * (diameter / 2) ** 2\<close>.
\<close>

definition base_drag :: "real \<Rightarrow> real \<Rightarrow> real \<Rightarrow> real \<Rightarrow> real" where
  "base_drag altitude velocity diameter drag_coefficient =
     (let rho = calculate_air_density altitude;
          area = pi * (diameter / 2) ^ 2
      in (1 / 2) * rho * velocity ^ 2 * drag_coefficient * area)"

text \<open>
  \<open>calculate_drag_force\<close>. The quotient \<open>time_since_deployment / inflation_time\<close> raises
  \<open>ZeroDivisionError\<close> in Python when \<open>inflation_time\<close> is zero, which the guard
  \<open>time_since_deployment < inflation_time\<close> allows for a negative time since deployment.
\<close>

definition calculate_drag_force ::
  "real \<Rightarrow> real \<Rightarrow> real \<Rightarrow> real \<Rightarrow> real \<Rightarrow> real \<Rightarrow> real \<Rightarrow> error + real" where
  "calculate_drag_force altitude velocity diameter drag_coefficient reefing_factor
       time_since_deployment inflation_time =
     (if velocity \<le> 0 then Inr 0
      else
        let base = base_drag altitude velocity diameter drag_coefficient
        in if time_since_deployment < inflation_time then
             (if inflation_time = 0 then Inl ZeroDivisionError
              else
                let inflation_progress = time_since_deployment / inflation_time;
                    effective_drag_coefficient =
                      reefing_factor + (1 - reefing_factor) * inflation_progress
                in Inr (base * effective_drag_coefficient))
           else Inr base)"

definition calculate_inflation_time :: "real \<Rightarrow> real \<Rightarrow> real \<Rightarrow> real" where
  "calculate_inflation_time n_factor diameter velocity =
     (if velocity \<le> 0 then 0
      else max (n_factor * diameter / velocity) (1 / 10))"

section \<open>Simulation state (src/simulation.py)\<close>

text \<open>
  The dictionaries \<open>global_params\<close>, \<open>phase_params[phase]\<close>, the entries of
  \<open>active_phases\<close> and the object itself are records with the keys and attributes of the
  source as fields. Dictionaries keyed by the phase name are maps; looking up a missing key
  is \<open>KeyError\<close>.
\<close>

record GlobalParameters =
  initial_altitude :: real
  initial_velocity :: real
  time_step :: real
  descent_angle :: real

record PhaseParameters =
  diameter :: real
  drag_coefficient :: real
  deployment_altitude :: real
  inflation_index :: real
  payload_mass :: real
  reefing_factor :: real

record phase_info =
  phase :: string
  deployment_time :: real
  inflation_time :: real
  params :: PhaseParameters

record ParachuteSimulation =
  global_params :: GlobalParameters
  phase_params :: "string \<rightharpoonup> PhaseParameters"
  selected_phases :: "string list"
  time :: "real list"
  altitude :: "real list"
  velocity :: "real list"
  total_drag_force :: "real list"
  phase_drag_forces :: "string \<rightharpoonup> real list"
  horizontal_position :: "real list"
  current_time :: real
  current_altitude :: real
  current_velocity :: real
  current_horizontal_pos :: real
  dt :: real
  descent_angle_rad :: real
  active_phases :: "phase_info list"
  deployed_phases :: "string set"
  phase_deployment_times :: "string \<rightharpoonup> real"
  phase_inflation_times :: "string \<rightharpoonup> real"

text \<open>\<open>__init__\<close>; \<open>np.radians\<close> multiplies by \<open>pi / 180\<close>.\<close>

definition init ::
  "GlobalParameters \<Rightarrow> (string \<rightharpoonup> PhaseParameters) \<Rightarrow> string list \<Rightarrow> ParachuteSimulation" where
  "init gp pp sel =
     \<lparr>global_params = gp,
      phase_params = pp,
      selected_phases = sel,
      time = [],
      altitude = [],
      velocity = [],
      total_drag_force = [],
      phase_drag_forces = (\<lambda>p. if p \<in> set sel then Some [] else None),
      horizontal_position = [],
      current_time = 0,
      current_altitude = initial_altitude gp,
      current_velocity = initial_velocity gp,
      current_horizontal_pos = 0,
      dt = time_step gp,
      descent_angle_rad = descent_angle gp * pi / 180,
      active_phases = [],
      deployed_phases = {},
      phase_deployment_times = Map.empty,
      phase_inflation_times = Map.empty\<rparr>"

subsection \<open>Phase deployment\<close>

definition deploy_phase :: "ParachuteSimulation \<Rightarrow> string \<Rightarrow> error + ParachuteSimulation" where
  "deploy_phase s p =
     (case phase_params s p of
        None \<Rightarrow> Inl KeyError
      | Some pr \<Rightarrow>
          let infl = calculate_inflation_time (inflation_index pr) (diameter pr)
                       (current_velocity s)
          in Inr (s\<lparr>deployed_phases := insert p (deployed_phases s),
                    phase_deployment_times := (phase_deployment_times s)(p \<mapsto> current_time s),
                    phase_inflation_times := (phase_inflation_times s)(p \<mapsto> infl),
                    active_phases := active_phases s @
                      [\<lparr>phase = p, deployment_time = current_time s,
                        inflation_time = infl, params = pr\<rparr>]\<rparr>))"

text \<open>The loop of \<open>_check_phase_deployments\<close> over the phases still to visit.\<close>

fun check_phases :: "string list \<Rightarrow> ParachuteSimulation \<Rightarrow> error + ParachuteSimulation" where
  "check_phases [] s = Inr s"
| "check_phases (p # ps) s =
     (if p \<in> deployed_phases s then check_phases ps s
      else
        (case phase_params s p of
           None \<Rightarrow> Inl KeyError
         | Some pr \<Rightarrow>
             if current_altitude s \<le> deployment_altitude pr then
               (case deploy_phase s p of
                  Inl e \<Rightarrow> Inl e
                | Inr s' \<Rightarrow> check_phases ps s')
             else check_phases ps s))"

definition check_phase_deployments :: "ParachuteSimulation \<Rightarrow> error + ParachuteSimulation" where
  "check_phase_deployments s = check_phases (selected_phases s) s"

subsection \<open>Forces\<close>

text \<open>The first loop of \<open>_calculate_forces\<close>: append 0.0 to the series of every selected phase.\<close>

fun reset_phase_drag ::
  "string list \<Rightarrow> (string \<rightharpoonup> real list) \<Rightarrow> error + (string \<rightharpoonup> real list)" where
  "reset_phase_drag [] m = Inr m"
| "reset_phase_drag (p # ps) m =
     (case m p of
        None \<Rightarrow> Inl KeyError
      | Some xs \<Rightarrow> reset_phase_drag ps (m(p \<mapsto> xs @ [0])))"

text \<open>The assignment \<open>xs[-1] = v\<close>, an \<open>IndexError\<close> on the empty list.\<close>

definition set_last :: "real list \<Rightarrow> real \<Rightarrow> error + real list" where
  "set_last xs v = (if xs = [] then Inl IndexError else Inr (xs[length xs - 1 := v]))"

text \<open>
  The second loop of \<open>_calculate_forces\<close> over the active phases still to visit, with the
  per-phase series and the running total.
\<close>

fun active_drag ::
  "phase_info list \<Rightarrow> ParachuteSimulation \<Rightarrow> (string \<rightharpoonup> real list) \<Rightarrow> real
     \<Rightarrow> error + (string \<rightharpoonup> real list) \<times> real" where
  "active_drag [] s m total_drag = Inr (m, total_drag)"
| "active_drag (a # as) s m total_drag =
     (case calculate_drag_force (current_altitude s) (current_velocity s)
             (diameter (params a)) (drag_coefficient (params a)) (reefing_factor (params a))
             (current_time s - deployment_time a) (inflation_time a) of
        Inl e \<Rightarrow> Inl e
      | Inr drag_force \<Rightarrow>
          (case m (phase a) of
             None \<Rightarrow> Inl KeyError
           | Some xs \<Rightarrow>
               (case set_last xs drag_force of
                  Inl e \<Rightarrow> Inl e
                | Inr xs' \<Rightarrow> active_drag as s (m(phase a \<mapsto> xs')) (total_drag + drag_force))))"

definition calculate_forces :: "ParachuteSimulation \<Rightarrow> error + ParachuteSimulation" where
  "calculate_forces s =
     (case reset_phase_drag (selected_phases s) (phase_drag_forces s) of
        Inl e \<Rightarrow> Inl e
      | Inr m \<Rightarrow>
          (case active_drag (active_phases s) s m 0 of
             Inl e \<Rightarrow> Inl e
           | Inr (m', total_drag) \<Rightarrow>
               Inr (s\<lparr>phase_drag_forces := m',
                        total_drag_force := total_drag_force s @ [total_drag]\<rparr>)))"

subsection \<open>Dynamics\<close>

definition get_current_mass :: "ParachuteSimulation \<Rightarrow> error + real" where
  "get_current_mass s =
     (case active_phases s of
        a # _ \<Rightarrow> Inr (payload_mass (params a))
      | [] \<Rightarrow>
          (case selected_phases s of
             [] \<Rightarrow> Inl IndexError
           | first_phase # _ \<Rightarrow>
               (case phase_params s first_phase of
                  None \<Rightarrow> Inl KeyError
                | Some pr \<Rightarrow> Inr (payload_mass pr))))"

text \<open>\<open>_update_dynamics\<close>; the quotient \<open>current_drag / mass\<close> raises on a zero mass.\<close>

definition update_dynamics :: "ParachuteSimulation \<Rightarrow> error + ParachuteSimulation" where
  "update_dynamics s =
     (let current_drag = (if total_drag_force s \<noteq> [] then last (total_drag_force s) else 0)
      in case get_current_mass s of
           Inl e \<Rightarrow> Inl e
         | Inr mass \<Rightarrow>
             if mass = 0 then Inl ZeroDivisionError
             else
               let gravity_component = g * cos (descent_angle_rad s);
                   drag_deceleration = current_drag / mass;
                   net_acceleration = gravity_component - drag_deceleration;
                   v = max 0 (current_velocity s + net_acceleration * dt s);
                   altitude_change = v * dt s;
                   horizontal_velocity = v * sin (descent_angle_rad s)
               in Inr (s\<lparr>current_velocity := v,
                         current_altitude := current_altitude s - altitude_change,
                         current_horizontal_pos :=
                           current_horizontal_pos s + horizontal_velocity * dt s\<rparr>))"

definition store_data :: "ParachuteSimulation \<Rightarrow> ParachuteSimulation" where
  "store_data s =
     s\<lparr>time := time s @ [current_time s],
       altitude := altitude s @ [max 0 (current_altitude s)],
       velocity := velocity s @ [current_velocity s],
       horizontal_position := horizontal_position s @ [current_horizontal_pos s]\<rparr>"

subsection \<open>The loop of \<open>run\<close>\<close>

text \<open>
  One pass through the body of the \<open>while\<close> loop, up to and including the advance of the
  time; the safety check that follows it is part of \<open>run_loop\<close>.
\<close>

definition loop_body :: "ParachuteSimulation \<Rightarrow> error + ParachuteSimulation" where
  "loop_body s =
     (case check_phase_deployments s of
        Inl e \<Rightarrow> Inl e
      | Inr s1 \<Rightarrow>
          (case calculate_forces s1 of
             Inl e \<Rightarrow> Inl e
           | Inr s2 \<Rightarrow>
               (case update_dynamics s2 of
                  Inl e \<Rightarrow> Inl e
                | Inr s3 \<Rightarrow>
                    let s4 = store_data s3
                    in Inr (s4\<lparr>current_time := current_time s4 + dt s4\<rparr>))))"

text \<open>
  The loop may run forever (a time step that is not positive), so its result is an option:
  \<open>None\<close> is a run that does not return, \<open>Some (Inl e)\<close> one that raises \<open>e\<close>.
\<close>

partial_function (option) run_loop ::
  "ParachuteSimulation \<Rightarrow> (error + ParachuteSimulation) option" where
  "run_loop s =
     (if current_altitude s > 0 then
        (case loop_body s of
           Inl e \<Rightarrow> Some (Inl e)
         | Inr s' \<Rightarrow> if current_time s' > 10000 then Some (Inr s') else run_loop s')
      else Some (Inr s))"

text \<open>The state after \<open>n\<close> passes through the loop body, whatever the loop conditions say.\<close>

fun iter :: "nat \<Rightarrow> ParachuteSimulation \<Rightarrow> error + ParachuteSimulation" where
  "iter 0 s = Inr s"
| "iter (Suc n) s = (case loop_body s of Inl e \<Rightarrow> Inl e | Inr s' \<Rightarrow> iter n s')"

subsection \<open>Results\<close>

text \<open>
  The summary of \<open>_compile_results\<close>. The per-phase entries hold the numbers that the source
  formats with one decimal; the formatting to text is left out.
\<close>

record PhaseResults =
  Phase :: string
  Max_Drag_Force :: real
  Deployment_Time :: real
  Inflation_Time :: real

record Results =
  max_total_drag_force :: real
  landing_velocity :: real
  total_flight_time :: real
  total_horizontal_range :: real
  final_altitude :: real
  phase_results :: "PhaseResults list"

text \<open>Python's \<open>max(xs) if xs else 0\<close> and \<open>xs[-1] if xs else 0\<close>.\<close>

definition max_or_zero :: "real list \<Rightarrow> real" where
  "max_or_zero xs = (if xs \<noteq> [] then fold max (tl xs) (hd xs) else 0)"

definition last_or_zero :: "real list \<Rightarrow> real" where
  "last_or_zero xs = (if xs \<noteq> [] then last xs else 0)"

fun compile_phase_results :: "string list \<Rightarrow> ParachuteSimulation \<Rightarrow> error + PhaseResults list" where
  "compile_phase_results [] s = Inr []"
| "compile_phase_results (p # ps) s =
     (case phase_drag_forces s p of
        None \<Rightarrow> Inl KeyError
      | Some forces \<Rightarrow>
          (case compile_phase_results ps s of
             Inl e \<Rightarrow> Inl e
           | Inr rs \<Rightarrow>
               Inr (\<lparr>Phase = p,
                     Max_Drag_Force = max_or_zero forces,
                     Deployment_Time = (case phase_deployment_times s p of
                                          None \<Rightarrow> 0 | Some t \<Rightarrow> t),
                     Inflation_Time = (case phase_inflation_times s p of
                                         None \<Rightarrow> 0 | Some t \<Rightarrow> t)\<rparr> # rs)))"

definition compile_results :: "ParachuteSimulation \<Rightarrow> error + Results" where
  "compile_results s =
     (case compile_phase_results (selected_phases s) s of
        Inl e \<Rightarrow> Inl e
      | Inr rs \<Rightarrow>
          Inr \<lparr>max_total_drag_force = max_or_zero (total_drag_force s),
               landing_velocity = last_or_zero (velocity s),
               total_flight_time = last_or_zero (time s),
               total_horizontal_range = last_or_zero (horizontal_position s),
               final_altitude = last_or_zero (altitude s),
               phase_results = rs\<rparr>)"

text \<open>
  \<open>run\<close>: the loop, then the summary. The object is left in the state that \<open>run_loop\<close>
  returns, which is what \<open>get_plot_data\<close> reads afterwards.
\<close>

definition run :: "ParachuteSimulation \<Rightarrow> (error + Results) option" where
  "run s =
     (case run_loop s of
        None \<Rightarrow> None
      | Some (Inl e) \<Rightarrow> Some (Inl e)
      | Some (Inr s') \<Rightarrow> Some (compile_results s'))"

section \<open>Configurations, observers and invariants used in the proofs\<close>

text \<open>The phase parameters of Scenario A of the specification: a single phase \<open>Main\<close>.\<close>

definition scenario_A_phases :: "string \<rightharpoonup> PhaseParameters" where
  "scenario_A_phases =
     [''Main'' \<mapsto> \<lparr>diameter = 20, drag_coefficient = 3 / 2, deployment_altitude = 1000,
                   inflation_index = 5, payload_mass = 100, reefing_factor = 3 / 10\<rparr>]"

text \<open>
  The loop invariant behind the monotone altitude series: the time step is not negative, the
  stored altitudes are in non-increasing order, and none of them is below the current
  altitude floored at 0.
\<close>

definition altitude_inv :: "ParachuteSimulation \<Rightarrow> bool" where
  "altitude_inv s \<longleftrightarrow>
     0 \<le> dt s \<and> sorted_wrt (\<lambda>x y. y \<le> x) (altitude s)
     \<and> (\<forall>x \<in> set (altitude s). max 0 (current_altitude s) \<le> x)"

text \<open>
  A release from 100 m at 50 m/s along a 60 degree flight path, with the phase \<open>Main\<close> set to
  deploy at ground level: the loop lands in two passes and no phase deploys.
\<close>

definition low_release_globals :: GlobalParameters where
  "low_release_globals =
     \<lparr>initial_altitude = 100, initial_velocity = 50, time_step = 1, descent_angle = 60\<rparr>"

definition ground_phases :: "string \<rightharpoonup> PhaseParameters" where
  "ground_phases =
     [''Main'' \<mapsto> \<lparr>diameter = 20, drag_coefficient = 3 / 2, deployment_altitude = 0,
                   inflation_index = 5, payload_mass = 100, reefing_factor = 3 / 10\<rparr>]"

text \<open>Scenario A started on the ground: the loop body never runs.\<close>

definition grounded_globals :: GlobalParameters where
  "grounded_globals =
     \<lparr>initial_altitude = 0, initial_velocity = 50, time_step = 1 / 10, descent_angle = 0\<rparr>"

text \<open>
  A glide along a horizontal flight path (descent angle 90 degrees, so that gravity has no
  component along it) from 20000 m at 1 m/s with a step of 1 s: the altitude falls by 1 m
  in each pass and is still 9999 m when the time passes 10,000 s. \<open>glide_state n\<close> is the
  state of this run after \<open>n\<close> passes.
\<close>

definition long_glide_globals :: GlobalParameters where
  "long_glide_globals =
     \<lparr>initial_altitude = 20000, initial_velocity = 1, time_step = 1, descent_angle = 90\<rparr>"

definition glide_state :: "nat \<Rightarrow> ParachuteSimulation" where
  "glide_state n =
     \<lparr>global_params = long_glide_globals,
      phase_params = ground_phases,
      selected_phases = [''Main''],
      time = map real [0..<n],
      altitude = map (\<lambda>i. 20000 - real (Suc i)) [0..<n],
      velocity = replicate n 1,
      total_drag_force = replicate n 0,
      phase_drag_forces = [''Main'' \<mapsto> replicate n 0],
      horizontal_position = map (\<lambda>i. real (Suc i)) [0..<n],
      current_time = real n,
      current_altitude = 20000 - real n,
      current_velocity = 1,
      current_horizontal_pos = real n,
      dt = 1,
      descent_angle_rad = 90 * pi / 180,
      active_phases = [],
      deployed_phases = {},
      phase_deployment_times = Map.empty,
      phase_inflation_times = Map.empty\<rparr>"

text \<open>
  The condition under which \<open>_check_phase_deployments\<close> deploys a phase that is not deployed
  yet: its parameters are present and the current altitude is at or below its deployment
  altitude.
\<close>

definition threshold_reached :: "ParachuteSimulation \<Rightarrow> string \<Rightarrow> bool" where
  "threshold_reached s p =
     (case phase_params s p of
        None \<Rightarrow> False
      | Some pr \<Rightarrow> current_altitude s \<le> deployment_altitude pr)"

text \<open>The entry that \<open>_deploy_phase\<close> appends to \<open>active_phases\<close> for parameters \<open>pr\<close>.\<close>

definition new_entry :: "ParachuteSimulation \<Rightarrow> string \<Rightarrow> PhaseParameters \<Rightarrow> phase_info" where
  "new_entry s p pr =
     \<lparr>phase = p, deployment_time = current_time s,
      inflation_time = calculate_inflation_time (inflation_index pr) (diameter pr)
                         (current_velocity s),
      params = pr\<rparr>"

text \<open>
  A drop from 502 m at rest along a 60 degree flight path, with the phases selected in the
  order \<open>Main\<close>, \<open>Drogue\<close>: \<open>Drogue\<close> (threshold 2000 m) deploys in the first pass, at zero
  velocity, and \<open>Main\<close> (threshold 500 m) in the second, at 497.095 m.
\<close>

definition staged_globals :: GlobalParameters where
  "staged_globals =
     \<lparr>initial_altitude = 502, initial_velocity = 0, time_step = 1, descent_angle = 60\<rparr>"

definition staged_phases :: "string \<rightharpoonup> PhaseParameters" where
  "staged_phases =
     [''Drogue'' \<mapsto> \<lparr>diameter = 5, drag_coefficient = 1, deployment_altitude = 2000,
                     inflation_index = 5, payload_mass = 200, reefing_factor = 1 / 2\<rparr>,
      ''Main'' \<mapsto> \<lparr>diameter = 20, drag_coefficient = 3 / 2, deployment_altitude = 500,
                   inflation_index = 5, payload_mass = 100, reefing_factor = 3 / 10\<rparr>]"

text \<open>
  Between passes, the active entries are exactly one per deployed phase.
\<close>

definition deployment_inv :: "ParachuteSimulation \<Rightarrow> bool" where
  "deployment_inv s \<longleftrightarrow>
     phase ` set (active_phases s) = deployed_phases s \<and> distinct (map phase (active_phases s))"

text \<open>Sequencing of two steps that may raise.\<close>

definition then_do :: "error + 'a \<Rightarrow> ('a \<Rightarrow> error + 'b) \<Rightarrow> error + 'b" where
  "then_do r f = (case r of Inl e \<Rightarrow> Inl e | Inr x \<Rightarrow> f x)"

text \<open>
  The mass that \<open>_update_dynamics\<close> reads in the pass that starts in state \<open>s\<close>: the value of
  \<open>_get_current_mass\<close> after the deployment check and the force computation of that pass.
\<close>

definition pass_mass :: "ParachuteSimulation \<Rightarrow> error + real" where
  "pass_mass s = then_do (then_do (check_phase_deployments s) calculate_forces) get_current_mass"

text \<open>
  The first selected phase, in configured order, whose threshold is reached in state \<open>s\<close>.
\<close>

definition first_reached :: "ParachuteSimulation \<Rightarrow> string option" where
  "first_reached s = find (threshold_reached s) (selected_phases s)"

text \<open>
  The rule for the mass as the specification words it, read in a given state: the payload mass
  of the first phase in configured order among the deployed ones, or of the first configured
  phase when none is deployed. \<open>claimed_pass_mass\<close> reads it after the deployment check of a
  pass, where \<open>pass_mass\<close> reads the mass of the source.
\<close>

definition claimed_mass :: "ParachuteSimulation \<Rightarrow> error + real" where
  "claimed_mass s =
     (case find (\<lambda>p. p \<in> deployed_phases s) (selected_phases s) of
        Some p \<Rightarrow> (case phase_params s p of None \<Rightarrow> Inl KeyError
                   | Some pr \<Rightarrow> Inr (payload_mass pr))
      | None \<Rightarrow>
          (case selected_phases s of
             [] \<Rightarrow> Inl IndexError
           | first_phase # _ \<Rightarrow>
               (case phase_params s first_phase of None \<Rightarrow> Inl KeyError
                | Some pr \<Rightarrow> Inr (payload_mass pr))))"

definition claimed_pass_mass :: "ParachuteSimulation \<Rightarrow> error + real" where
  "claimed_pass_mass s = then_do (check_phase_deployments s) claimed_mass"







section \<open>Properties of the atmosphere model\<close>

lemma temperature_ratio_antimono:
  "a1 \<le> a2 \<Longrightarrow> 1 - (L * a2 / T0) \<le> 1 - (L * a1 / T0)"
  by (simp add: L_def T0_def)

lemma calculate_air_density_clamped:
  "calculate_air_density a = calculate_air_density (max 0 a)"
  by (simp add: calculate_air_density_def max_def)

lemma calculate_air_density_floor: "1 / 1000 \<le> calculate_air_density a"
  unfolding calculate_air_density_def Let_def
  by (simp only: max.cobounded2 order_refl if_split) simp

lemma calculate_air_density_antimono_nonneg:
  assumes "0 \<le> a1" and "a1 \<le> a2"
  shows "calculate_air_density a2 \<le> calculate_air_density a1"
proof -
  let ?r1 = "1 - (L * a1 / T0)" and ?r2 = "1 - (L * a2 / T0)"
  from assms have le: "?r2 \<le> ?r1" by (simp add: temperature_ratio_antimono)
  from assms have n1: "\<not> a1 < 0" and n2: "\<not> a2 < 0" by simp_all
  show ?thesis
  proof (cases "?r2 \<le> 0")
    case True
    with n1 n2 have "calculate_air_density a2 = 1 / 1000"
      by (simp add: calculate_air_density_def Let_def)
    then show ?thesis
      using calculate_air_density_floor [of a1] by simp
  next
    case False
    then have p2: "0 < ?r2" by simp
    with le have p1: "0 < ?r1" by linarith
    from p2 le have "?r2 powr (52561 / 10000) \<le> ?r1 powr (52561 / 10000)"
      by (intro powr_mono2) simp_all
    then have "rho0 * ?r2 powr (52561 / 10000) \<le> rho0 * ?r1 powr (52561 / 10000)"
      by (simp add: rho0_def)
    with p1 p2 n1 n2 show ?thesis
      by (simp add: calculate_air_density_def Let_def max_def)
  qed
qed

lemma calculate_air_density_antimono:
  assumes "a1 \<le> a2"
  shows "calculate_air_density a2 \<le> calculate_air_density a1"
proof -
  from assms have "max 0 a1 \<le> max 0 a2" by simp
  then have "calculate_air_density (max 0 a2) \<le> calculate_air_density (max 0 a1)"
    by (intro calculate_air_density_antimono_nonneg) simp_all
  then show ?thesis
    using calculate_air_density_clamped [of a1] calculate_air_density_clamped [of a2]
    by simp
qed

lemma calculate_air_density_pos: "0 < calculate_air_density a"
  using calculate_air_density_floor [of a] by simp

text \<open>
  C7. Density monotonicity: \<open>calculate_air_density\<close> is non-increasing in the altitude, for
  all altitudes \<open>a1 \<le> a2\<close> in the range from 0 to 44000 m.
\<close>

theorem air_density_non_increasing:
  assumes "0 \<le> a1" and "a1 \<le> a2" and "a2 \<le> 44000"
  shows "calculate_air_density a2 \<le> calculate_air_density a1"
  using assms(2) by (rule calculate_air_density_antimono)

theorem air_density_non_increasing_witness:
  "(0::real) \<le> 0 \<and> (0::real) \<le> 44000 \<and> (44000::real) \<le> 44000
     \<and> calculate_air_density 44000 \<le> calculate_air_density 0"
  using air_density_non_increasing [of 0 44000] by simp

text \<open>
  C8. \<open>calculate_air_density\<close> is total and has no failing branch: for every real altitude,
  negative or implausibly high, its value is positive and at least the floor 0.001; negative
  altitudes are read as 0, and a temperature ratio at or below zero gives the floor itself.
\<close>

theorem air_density_total_positive:
  "0 < calculate_air_density a
     \<and> 1 / 1000 \<le> calculate_air_density a
     \<and> calculate_air_density (- \<bar>a\<bar>) = calculate_air_density 0
     \<and> calculate_air_density (T0 / L + \<bar>a\<bar>) = 1 / 1000"
proof -
  have neg: "calculate_air_density (- \<bar>a\<bar>) = calculate_air_density 0"
    using calculate_air_density_clamped [of "- \<bar>a\<bar>"] by (simp add: max_def)
  have "1 - L * (T0 / L + \<bar>a\<bar>) / T0 \<le> 0"
    by (simp add: L_def T0_def field_simps)
  moreover have "\<not> T0 / L + \<bar>a\<bar> < 0"
    by (simp add: L_def T0_def) 
  ultimately have high: "calculate_air_density (T0 / L + \<bar>a\<bar>) = 1 / 1000"
    by (simp add: calculate_air_density_def Let_def)
  from calculate_air_density_pos calculate_air_density_floor neg high
  show ?thesis by blast
qed

section \<open>Properties of the drag model\<close>






section \<open>The loop body: what each part changes\<close>

lemma deploy_phase_unchanged:
  assumes "deploy_phase s p = Inr s'"
  shows "global_params s' = global_params s" and "phase_params s' = phase_params s"
    and "selected_phases s' = selected_phases s" and "time s' = time s"
    and "altitude s' = altitude s" and "velocity s' = velocity s"
    and "total_drag_force s' = total_drag_force s"
    and "phase_drag_forces s' = phase_drag_forces s"
    and "horizontal_position s' = horizontal_position s"
    and "current_time s' = current_time s" and "current_altitude s' = current_altitude s"
    and "current_velocity s' = current_velocity s"
    and "current_horizontal_pos s' = current_horizontal_pos s"
    and "dt s' = dt s" and "descent_angle_rad s' = descent_angle_rad s"
  using assms by (auto simp: deploy_phase_def Let_def split: option.splits)

lemma check_phases_unchanged_aux:
  "check_phases ps s = Inr s' \<Longrightarrow>
     global_params s' = global_params s \<and> phase_params s' = phase_params s
     \<and> selected_phases s' = selected_phases s \<and> time s' = time s
     \<and> altitude s' = altitude s \<and> velocity s' = velocity s
     \<and> total_drag_force s' = total_drag_force s
     \<and> phase_drag_forces s' = phase_drag_forces s
     \<and> horizontal_position s' = horizontal_position s
     \<and> current_time s' = current_time s \<and> current_altitude s' = current_altitude s
     \<and> current_velocity s' = current_velocity s
     \<and> current_horizontal_pos s' = current_horizontal_pos s
     \<and> dt s' = dt s \<and> descent_angle_rad s' = descent_angle_rad s"
proof (induction ps arbitrary: s)
  case Nil
  then show ?case by simp
next
  case (Cons p ps)
  show ?case
  proof (cases "check_phases ps s = Inr s'")
    case True
    then show ?thesis by (rule Cons.IH)
  next
    case False
    with Cons.prems obtain s1 where d: "deploy_phase s p = Inr s1" and c: "check_phases ps s1 = Inr s'"
      by (auto split: if_splits option.splits sum.splits)
    from Cons.IH [OF c] show ?thesis
      by (simp add: deploy_phase_unchanged [OF d])
  qed
qed

lemma calculate_forces_result:
  assumes "calculate_forces s = Inr s'"
  shows "\<exists>m x. s' = s\<lparr>phase_drag_forces := m, total_drag_force := total_drag_force s @ [x]\<rparr>"
  using assms by (auto simp: calculate_forces_def split: sum.splits)

lemma update_dynamics_fields:
  assumes "update_dynamics s = Inr s'"
  shows "0 \<le> current_velocity s'
     \<and> current_altitude s' = current_altitude s - current_velocity s' * dt s
     \<and> current_horizontal_pos s' = current_horizontal_pos s
           + current_velocity s' * sin (descent_angle_rad s) * dt s
     \<and> global_params s' = global_params s \<and> phase_params s' = phase_params s
     \<and> selected_phases s' = selected_phases s \<and> time s' = time s
     \<and> altitude s' = altitude s \<and> velocity s' = velocity s
     \<and> total_drag_force s' = total_drag_force s
     \<and> phase_drag_forces s' = phase_drag_forces s
     \<and> horizontal_position s' = horizontal_position s
     \<and> current_time s' = current_time s
     \<and> dt s' = dt s \<and> descent_angle_rad s' = descent_angle_rad s
     \<and> active_phases s' = active_phases s \<and> deployed_phases s' = deployed_phases s
     \<and> phase_deployment_times s' = phase_deployment_times s
     \<and> phase_inflation_times s' = phase_inflation_times s"
proof -
  from assms obtain mass where "get_current_mass s = Inr mass" and "mass \<noteq> 0"
    by (auto simp: update_dynamics_def Let_def split: sum.splits if_splits)
  with assms show ?thesis
    by (auto simp: update_dynamics_def Let_def)
qed

lemma loop_body_elim:
  assumes "loop_body s = Inr s'"
  obtains s1 s2 s3 where "check_phase_deployments s = Inr s1" and "calculate_forces s1 = Inr s2"
    and "update_dynamics s2 = Inr s3"
    and "s' = (store_data s3)\<lparr>current_time := current_time s3 + dt s3\<rparr>"
  using assms by (auto simp: loop_body_def Let_def store_data_def split: sum.splits)

lemma loop_body_fields:
  assumes "loop_body s = Inr s'"
  shows "0 \<le> current_velocity s'
     \<and> global_params s' = global_params s \<and> phase_params s' = phase_params s
     \<and> selected_phases s' = selected_phases s
     \<and> dt s' = dt s \<and> descent_angle_rad s' = descent_angle_rad s
     \<and> current_time s' = current_time s + dt s
     \<and> current_altitude s' = current_altitude s - current_velocity s' * dt s
     \<and> current_horizontal_pos s' = current_horizontal_pos s
           + current_velocity s' * sin (descent_angle_rad s) * dt s
     \<and> time s' = time s @ [current_time s]
     \<and> altitude s' = altitude s @ [max 0 (current_altitude s')]
     \<and> velocity s' = velocity s @ [current_velocity s']
     \<and> horizontal_position s' = horizontal_position s @ [current_horizontal_pos s']
     \<and> (\<exists>x. total_drag_force s' = total_drag_force s @ [x])"
proof -
  from assms obtain s1 s2 s3 where c: "check_phase_deployments s = Inr s1"
    and f: "calculate_forces s1 = Inr s2"
    and u: "update_dynamics s2 = Inr s3"
    and s': "s' = (store_data s3)\<lparr>current_time := current_time s3 + dt s3\<rparr>"
    by (rule loop_body_elim)
  note s1 = check_phases_unchanged_aux [OF c [unfolded check_phase_deployments_def]]
  from calculate_forces_result [OF f] obtain m x where
    s2: "s2 = s1\<lparr>phase_drag_forces := m, total_drag_force := total_drag_force s1 @ [x]\<rparr>"
    by blast
  note s3 = update_dynamics_fields [OF u]
  show ?thesis
    by (simp add: s' s3 s2 s1 store_data_def)
qed


subsection \<open>Iterating the loop body\<close>

lemma iter_Suc_end:
  "iter (Suc n) s = (case iter n s of Inl e \<Rightarrow> Inl e | Inr s' \<Rightarrow> loop_body s')"
proof (induction n arbitrary: s)
  case 0
  show ?case by (simp split: sum.splits)
next
  case (Suc n)
  show ?case
  proof (cases "loop_body s")
    case (Inl e)
    then show ?thesis by simp
  next
    case (Inr s1)
    with Suc.IH [of s1] show ?thesis by simp
  qed
qed

lemma iter_Suc_endE:
  assumes "iter (Suc n) s = Inr s'"
  obtains sn where "iter n s = Inr sn" and "loop_body sn = Inr s'"
  using assms unfolding iter_Suc_end by (auto split: sum.splits)

lemma iter_prefix:
  assumes "iter n s = Inr s'" and "i \<le> n"
  shows "\<exists>si. iter i s = Inr si"
  using assms
proof (induction n arbitrary: s')
  case 0
  then show ?case by simp
next
  case (Suc n)
  from Suc.prems(1) obtain sn where sn: "iter n s = Inr sn"
    by (rule iter_Suc_endE)
  show ?case
  proof (cases "i = Suc n")
    case True
    with Suc.prems(1) show ?thesis by blast
  next
    case False
    with Suc.prems(2) have "i \<le> n" by simp
    with sn show ?thesis by (rule Suc.IH)
  qed
qed

lemma iter_invariant:
  assumes "iter n s0 = Inr s" and "P s0"
    and step: "\<And>s s'. P s \<Longrightarrow> loop_body s = Inr s' \<Longrightarrow> P s'"
  shows "P s"
  using assms(1,2)
proof (induction n arbitrary: s0)
  case 0
  then show ?case by simp
next
  case (Suc n)
  from Suc.prems(1) obtain s1 where b: "loop_body s0 = Inr s1" and i: "iter n s1 = Inr s"
    by (auto split: sum.splits)
  from Suc.prems(2) b have "P s1" by (rule step)
  with i show ?case by (rule Suc.IH)
qed

lemma run_loop_iter_aux:
  assumes "run_loop s = Some r"
  shows "\<forall>s'. r = Inr s' \<longrightarrow> (\<exists>n. iter n s = Inr s'
           \<and> (current_altitude s' \<le> 0 \<or> 0 < n \<and> 10000 < current_time s'))"
proof (rule run_loop.raw_induct [where P = "\<lambda>s r. \<forall>s'. r = Inr s' \<longrightarrow> (\<exists>n. iter n s = Inr s'
           \<and> (current_altitude s' \<le> 0 \<or> 0 < n \<and> 10000 < current_time s'))", OF _ assms])
  fix f s r
  assume IH: "\<And>s r. f s = Some r \<Longrightarrow> \<forall>s'. r = Inr s' \<longrightarrow> (\<exists>n. iter n s = Inr s'
           \<and> (current_altitude s' \<le> 0 \<or> 0 < n \<and> 10000 < current_time s'))"
    and eq: "(if 0 < current_altitude s
          then case loop_body s of Inl e \<Rightarrow> Some (Inl e)
               | Inr s' \<Rightarrow> if 10000 < current_time s' then Some (Inr s') else f s'
          else Some (Inr s)) = Some r"
  show "\<forall>s'. r = Inr s' \<longrightarrow> (\<exists>n. iter n s = Inr s'
           \<and> (current_altitude s' \<le> 0 \<or> 0 < n \<and> 10000 < current_time s'))"
  proof (intro allI impI)
    fix s'
    assume r: "r = Inr s'"
    show "\<exists>n. iter n s = Inr s'
           \<and> (current_altitude s' \<le> 0 \<or> 0 < n \<and> 10000 < current_time s')"
    proof (cases "0 < current_altitude s")
      case False
      with eq r have "s' = s" by simp
      with False have "iter 0 s = Inr s' \<and> current_altitude s' \<le> 0" by simp
      then show ?thesis by blast
    next
      case True
      with eq r obtain s1 where b: "loop_body s = Inr s1"
        by (auto split: sum.splits)
      show ?thesis
      proof (cases "10000 < current_time s1")
        case over: True
        with True eq r b have "s' = s1" by simp
        with b over have "iter (Suc 0) s = Inr s' \<and> (0::nat) < Suc 0 \<and> 10000 < current_time s'"
          by simp
        then show ?thesis by blast
      next
        case False
        with True eq r b have "f s1 = Some (Inr s')" by simp
        from IH [OF this] obtain n where n: "iter n s1 = Inr s'"
          and e: "current_altitude s' \<le> 0 \<or> 0 < n \<and> 10000 < current_time s'" by blast
        from b n have "iter (Suc n) s = Inr s'" by simp
        moreover from e have "current_altitude s' \<le> 0 \<or> 0 < Suc n \<and> 10000 < current_time s'"
          by auto
        ultimately show ?thesis by blast
      qed
    qed
  qed
qed

lemma run_loop_iter:
  assumes "run_loop s = Some (Inr s')"
  shows "\<exists>n. iter n s = Inr s'
           \<and> (current_altitude s' \<le> 0 \<or> 0 < n \<and> 10000 < current_time s')"
  using run_loop_iter_aux [OF assms] by blast

lemma run_loop_returns_aux:
  "0 < dt s \<Longrightarrow> 10000 < current_time s + real k * dt s \<Longrightarrow> \<exists>r. run_loop s = Some r"
proof (induction k arbitrary: s)
  case 0
  show ?case
  proof (cases "loop_body s")
    case (Inl e)
    then show ?thesis by (simp add: run_loop.simps [of s])
  next
    case (Inr s1)
    from loop_body_fields [OF Inr] 0 have "10000 < current_time s1" by simp
    with Inr show ?thesis by (simp add: run_loop.simps [of s])
  qed
next
  case (Suc k)
  show ?case
  proof (cases "loop_body s")
    case (Inl e)
    then show ?thesis by (simp add: run_loop.simps [of s])
  next
    case (Inr s1)
    note f = loop_body_fields [OF Inr]
    show ?thesis
    proof (cases "10000 < current_time s1")
      case True
      with Inr show ?thesis by (simp add: run_loop.simps [of s])
    next
      case False
      from f Suc.prems have "0 < dt s1" and "10000 < current_time s1 + real k * dt s1"
        by (simp_all add: algebra_simps)
      then obtain r where "run_loop s1 = Some r" using Suc.IH by blast
      with Inr False show ?thesis by (simp add: run_loop.simps [of s])
    qed
  qed
qed

lemma run_loop_returns:
  assumes "0 < dt s"
  shows "\<exists>r. run_loop s = Some r"
proof -
  from assms obtain k :: nat where "10000 - current_time s < real k * dt s"
    using reals_Archimedean3 by blast
  then have "10000 < current_time s + real k * dt s" by simp
  with assms show ?thesis by (rule run_loop_returns_aux)
qed

section \<open>The altitude series\<close>

lemma init_simps:
  "global_params (init gp pp sel) = gp"
  "phase_params (init gp pp sel) = pp"
  "selected_phases (init gp pp sel) = sel"
  "time (init gp pp sel) = []"
  "altitude (init gp pp sel) = []"
  "velocity (init gp pp sel) = []"
  "total_drag_force (init gp pp sel) = []"
  "phase_drag_forces (init gp pp sel) = (\<lambda>p. if p \<in> set sel then Some [] else None)"
  "horizontal_position (init gp pp sel) = []"
  "current_time (init gp pp sel) = 0"
  "current_altitude (init gp pp sel) = initial_altitude gp"
  "current_velocity (init gp pp sel) = initial_velocity gp"
  "current_horizontal_pos (init gp pp sel) = 0"
  "dt (init gp pp sel) = time_step gp"
  "descent_angle_rad (init gp pp sel) = descent_angle gp * pi / 180"
  "active_phases (init gp pp sel) = []"
  "deployed_phases (init gp pp sel) = {}"
  "phase_deployment_times (init gp pp sel) = Map.empty"
  "phase_inflation_times (init gp pp sel) = Map.empty"
  by (simp_all add: init_def)

lemma altitude_inv_step:
  assumes "altitude_inv s" and "loop_body s = Inr s'"
  shows "altitude_inv s'"
proof -
  note f = loop_body_fields [OF assms(2)]
  from assms(1) have d: "0 \<le> dt s" and srt: "sorted_wrt (\<lambda>x y. y \<le> x) (altitude s)"
    and lb: "\<forall>x \<in> set (altitude s). max 0 (current_altitude s) \<le> x"
    by (simp_all add: altitude_inv_def)
  from f d have "0 \<le> current_velocity s' * dt s" by simp
  with f have le: "current_altitude s' \<le> current_altitude s" by simp
  then have m: "max 0 (current_altitude s') \<le> max 0 (current_altitude s)" by simp
  with lb have lb': "\<forall>x \<in> set (altitude s). max 0 (current_altitude s') \<le> x"
    by (meson order_trans)
  from f have alt: "altitude s' = altitude s @ [max 0 (current_altitude s')]" by simp
  from srt lb' have "sorted_wrt (\<lambda>x y. y \<le> x) (altitude s')"
    unfolding alt by (simp add: sorted_wrt_append)
  moreover from lb' have "\<forall>x \<in> set (altitude s'). max 0 (current_altitude s') \<le> x"
    unfolding alt by simp
  moreover from f d have "0 \<le> dt s'" by simp
  ultimately show ?thesis by (simp add: altitude_inv_def)
qed

lemma altitude_inv_init: "0 \<le> time_step gp \<Longrightarrow> altitude_inv (init gp pp sel)"
  by (simp add: altitude_inv_def init_simps)

lemma altitude_series_iter:
  assumes "0 \<le> time_step gp" and "iter n (init gp pp sel) = Inr s"
  shows "\<forall>i. Suc i < length (altitude s) \<longrightarrow> altitude s ! Suc i \<le> altitude s ! i"
proof -
  from assms(1) have "altitude_inv (init gp pp sel)"
    by (simp add: altitude_inv_init)
  with assms(2) have "altitude_inv s"
    by (rule iter_invariant) (rule altitude_inv_step)
  then have srt: "sorted_wrt (\<lambda>x y. y \<le> x) (altitude s)"
    by (simp add: altitude_inv_def)
  show ?thesis
  proof (intro allI impI)
    fix i
    assume "Suc i < length (altitude s)"
    with sorted_wrt_nth_less [OF srt, of i "Suc i"]
    show "altitude s ! Suc i \<le> altitude s ! i" by simp
  qed
qed

section \<open>Runs and their summaries\<close>

lemmas loop_defs = loop_body_def check_phase_deployments_def calculate_forces_def
  update_dynamics_def get_current_mass_def store_data_def Let_def

lemma low_release_run:
  "\<exists>s r. run_loop (init low_release_globals ground_phases [''Main'']) = Some (Inr s)
     \<and> run (init low_release_globals ground_phases [''Main'']) = Some (Inr r)
     \<and> current_altitude s \<le> 0 \<and> length (altitude s) = 2"
  by (simp add: run_def run_loop.simps loop_defs init_def low_release_globals_def
      ground_phases_def g_def cos_60 compile_results_def)

text \<open>
  C6. Monotonic altitude: for every run with a positive time step, the stored altitude series
  is non-increasing, each sample being at most the one before it. The vertical velocity is
  clamped to be non-negative before the altitude is updated, and the altitude is floored at
  0 when it is stored. By \<open>altitude_series_iter\<close> the same holds in every state that the loop
  passes through.
\<close>

theorem altitude_series_non_increasing:
  assumes "0 < time_step gp" and "run_loop (init gp pp sel) = Some (Inr s)"
  shows "\<forall>i. Suc i < length (altitude s) \<longrightarrow> altitude s ! Suc i \<le> altitude s ! i"
proof -
  from run_loop_iter [OF assms(2)] obtain n where "iter n (init gp pp sel) = Inr s"
    by blast
  moreover from assms(1) have "0 \<le> time_step gp" by simp
  ultimately show ?thesis by (rule altitude_series_iter [rotated])
qed

theorem altitude_series_non_increasing_witness:
  "0 < time_step low_release_globals
     \<and> (\<exists>s. run_loop (init low_release_globals ground_phases [''Main'']) = Some (Inr s)
           \<and> Suc 0 < length (altitude s) \<and> altitude s ! Suc 0 \<le> altitude s ! 0)"
proof -
  have dt: "0 < time_step low_release_globals"
    by (simp add: low_release_globals_def)
  from low_release_run obtain s
    where s: "run_loop (init low_release_globals ground_phases [''Main'']) = Some (Inr s)"
      and len: "length (altitude s) = 2" by blast
  from altitude_series_non_increasing [OF dt s] len
  have "altitude s ! Suc 0 \<le> altitude s ! 0" by simp
  with dt s len show ?thesis by auto
qed

lemma compile_phase_results_init:
  "set ps \<subseteq> set sel \<Longrightarrow>
     compile_phase_results ps (init gp pp sel) =
       Inr (map (\<lambda>p. \<lparr>Phase = p, Max_Drag_Force = 0, Deployment_Time = 0,
                        Inflation_Time = 0\<rparr>) ps)"
  by (induction ps) (simp_all add: init_simps max_or_zero_def)

lemma run_loop_landed:
  "current_altitude s \<le> 0 \<Longrightarrow> run_loop s = Some (Inr s)"
  by (simp add: run_loop.simps [of s])

text \<open>
  C4, as amended. Degenerate run: when the initial altitude is 0 the loop body never runs, so
  the object returns in its initial state with an empty time series (at most one sample, in
  fact none), and the summary reports the zero defaults: a landing velocity of 0, whatever
  the initial velocity, and a total flight time of 0.
\<close>

theorem degenerate_run_zero_defaults:
  assumes "initial_altitude gp = 0"
  shows "run_loop (init gp pp sel) = Some (Inr (init gp pp sel))
     \<and> time (init gp pp sel) = []
     \<and> (\<exists>r. run (init gp pp sel) = Some (Inr r)
           \<and> landing_velocity r = 0 \<and> total_flight_time r = 0)"
proof -
  from assms have loop: "run_loop (init gp pp sel) = Some (Inr (init gp pp sel))"
    by (simp add: run_loop_landed init_simps)
  have "compile_phase_results sel (init gp pp sel) =
       Inr (map (\<lambda>p. \<lparr>Phase = p, Max_Drag_Force = 0, Deployment_Time = 0,
                        Inflation_Time = 0\<rparr>) sel)"
    by (rule compile_phase_results_init) simp
  then have "\<exists>r. compile_results (init gp pp sel) = Inr r
      \<and> landing_velocity r = 0 \<and> total_flight_time r = 0"
    by (simp add: compile_results_def init_simps last_or_zero_def)
  with loop show ?thesis
    by (simp add: run_def init_simps)
qed

theorem degenerate_run_zero_defaults_witness:
  "initial_altitude grounded_globals = 0
     \<and> run_loop (init grounded_globals scenario_A_phases [''Main''])
         = Some (Inr (init grounded_globals scenario_A_phases [''Main'']))
     \<and> time (init grounded_globals scenario_A_phases [''Main'']) = []
     \<and> (\<exists>r. run (init grounded_globals scenario_A_phases [''Main'']) = Some (Inr r)
           \<and> landing_velocity r = 0 \<and> total_flight_time r = 0)"
  using degenerate_run_zero_defaults [of grounded_globals scenario_A_phases "[''Main'']"]
  by (simp add: grounded_globals_def)

text \<open>
  C4 as stated fails: started on the ground at 50 m/s, the run reports a landing velocity of
  0, not the initial velocity.
\<close>

theorem degenerate_run_landing_velocity_counterexample:
  "initial_altitude grounded_globals = 0
     \<and> initial_velocity grounded_globals = 50
     \<and> run (init grounded_globals scenario_A_phases [''Main'']) =
          Some (Inr \<lparr>max_total_drag_force = 0, landing_velocity = 0, total_flight_time = 0,
                      total_horizontal_range = 0, final_altitude = 0,
                      phase_results = [\<lparr>Phase = ''Main'', Max_Drag_Force = 0,
                                         Deployment_Time = 0, Inflation_Time = 0\<rparr>]\<rparr>)"
  by (simp add: run_def run_loop_landed init_simps grounded_globals_def compile_results_def
      last_or_zero_def max_or_zero_def scenario_A_phases_def)

section \<open>Snapshots\<close>

lemma series_after_iter:
  "iter n (init gp pp sel) = Inr s \<Longrightarrow>
     length (time s) = n \<and> length (altitude s) = n \<and> length (velocity s) = n
     \<and> length (horizontal_position s) = n
     \<and> dt s = time_step gp \<and> current_time s = real n * time_step gp
     \<and> (\<forall>i<n. \<exists>si si'. iter i (init gp pp sel) = Inr si \<and> loop_body si = Inr si'
           \<and> current_time si = real i * time_step gp
           \<and> current_time si' = real (Suc i) * time_step gp
           \<and> time s ! i = real i * time_step gp
           \<and> altitude s ! i = max 0 (current_altitude si')
           \<and> velocity s ! i = current_velocity si'
           \<and> horizontal_position s ! i = current_horizontal_pos si')"
proof (induction n arbitrary: s)
  case 0
  then have "s = init gp pp sel" by simp
  then show ?case by (simp add: init_simps)
next
  case (Suc n)
  from Suc.prems obtain sn where sn: "iter n (init gp pp sel) = Inr sn"
    and b: "loop_body sn = Inr s"
    by (rule iter_Suc_endE)
  note IH = Suc.IH [OF sn]
  note f = loop_body_fields [OF b]
  from IH have len: "length (time sn) = n" "length (altitude sn) = n"
    "length (velocity sn) = n" "length (horizontal_position sn) = n"
    and d: "dt sn = time_step gp" and t: "current_time sn = real n * time_step gp"
    by simp_all
  from f t d have t': "current_time s = real (Suc n) * time_step gp"
    by (simp add: algebra_simps)
  have "\<exists>si si'. iter i (init gp pp sel) = Inr si \<and> loop_body si = Inr si'
           \<and> current_time si = real i * time_step gp
           \<and> current_time si' = real (Suc i) * time_step gp
           \<and> time s ! i = real i * time_step gp
           \<and> altitude s ! i = max 0 (current_altitude si')
           \<and> velocity s ! i = current_velocity si'
           \<and> horizontal_position s ! i = current_horizontal_pos si'"
    if i: "i < Suc n" for i
  proof (cases "i = n")
    case True
    from f len t have "time s ! n = real n * time_step gp"
      and "altitude s ! n = max 0 (current_altitude s)"
      and "velocity s ! n = current_velocity s"
      and "horizontal_position s ! n = current_horizontal_pos s"
      by (simp_all add: nth_append)
    with True sn b t t' show ?thesis by blast
  next
    case False
    with i have lt: "i < n" by simp
    with IH obtain si si' where "iter i (init gp pp sel) = Inr si" "loop_body si = Inr si'"
           "current_time si = real i * time_step gp"
           "current_time si' = real (Suc i) * time_step gp"
           "time sn ! i = real i * time_step gp"
           "altitude sn ! i = max 0 (current_altitude si')"
           "velocity sn ! i = current_velocity si'"
           "horizontal_position sn ! i = current_horizontal_pos si'"
      by blast
    moreover from f len lt have "time s ! i = time sn ! i" "altitude s ! i = altitude sn ! i"
      "velocity s ! i = velocity sn ! i"
      "horizontal_position s ! i = horizontal_position sn ! i"
      by (simp_all add: nth_append)
    ultimately show ?thesis by simp
  qed
  with f len d t' show ?case by simp
qed



section \<open>Leaving the loop at the safety ceiling\<close>

lemma last_altitude_step:
  assumes "altitude s \<noteq> [] \<longrightarrow> last (altitude s) = max 0 (current_altitude s)"
    and "loop_body s = Inr s'"
  shows "altitude s' \<noteq> [] \<longrightarrow> last (altitude s') = max 0 (current_altitude s')"
  using loop_body_fields [OF assms(2)] by simp

text \<open>
  C3, as amended. A run that leaves the loop at the 10,000 s ceiling with the altitude still
  above 0 returns the same kind of summary as a landed run: \<open>run\<close> has no separate
  outcome for it. The two are told apart by the summary's final altitude only, which is
  positive exactly when the run stopped at the ceiling above the ground and 0 when the
  altitude reached 0.
\<close>

theorem ceiling_exit_shows_in_final_altitude:
  assumes "run_loop (init gp pp sel) = Some (Inr s)"
    and "run (init gp pp sel) = Some (Inr r)"
  shows "(0 < current_altitude s \<longrightarrow> 10000 < current_time s \<and> 0 < final_altitude r)
     \<and> (current_altitude s \<le> 0 \<longrightarrow> final_altitude r = 0)"
proof -
  from run_loop_iter [OF assms(1)] obtain n where n: "iter n (init gp pp sel) = Inr s"
    and ex: "current_altitude s \<le> 0 \<or> 0 < n \<and> 10000 < current_time s"
    by blast
  have "altitude (init gp pp sel) \<noteq> [] \<longrightarrow>
      last (altitude (init gp pp sel)) = max 0 (current_altitude (init gp pp sel))"
    by (simp add: init_simps)
  with n have lst: "altitude s \<noteq> [] \<longrightarrow> last (altitude s) = max 0 (current_altitude s)"
    by (rule iter_invariant) (rule last_altitude_step)
  from series_after_iter [OF n] have len: "length (altitude s) = n" by simp
  from assms have "compile_results s = Inr r"
    by (simp add: run_def)
  then have fa: "final_altitude r = last_or_zero (altitude s)"
    by (auto simp: compile_results_def split: sum.splits)
  have above: "10000 < current_time s \<and> 0 < final_altitude r" if up: "0 < current_altitude s"
  proof -
    from up ex have "0 < n" and over: "10000 < current_time s" by simp_all
    with len have "altitude s \<noteq> []" by auto
    with lst fa up over show ?thesis by (simp add: last_or_zero_def)
  qed
  have landed: "final_altitude r = 0" if "current_altitude s \<le> 0"
    using that lst fa by (simp add: last_or_zero_def)
  from above landed show ?thesis by blast
qed

lemma run_loop_steps:
  assumes step: "\<And>k. k < n \<Longrightarrow> 0 < current_altitude (f k) \<and> loop_body (f k) = Inr (f (Suc k))"
    and cont: "\<And>k. Suc k < n \<Longrightarrow> current_time (f (Suc k)) \<le> 10000"
    and stop: "10000 < current_time (f n) \<or> current_altitude (f n) \<le> 0"
    and pos: "0 < n"
  shows "run_loop (f 0) = Some (Inr (f n))"
proof -
  have "k < n \<Longrightarrow> n - k = Suc d \<Longrightarrow> run_loop (f k) = Some (Inr (f n))" for k d
  proof (induction d arbitrary: k)
    case 0
    then have n: "Suc k = n" by simp
    from step [OF "0.prems"(1)] have a: "0 < current_altitude (f k)"
      and b: "loop_body (f k) = Inr (f n)" by (simp_all add: n)
    show ?case
    proof (cases "10000 < current_time (f n)")
      case True
      with a b show ?thesis by (simp add: run_loop.simps [of "f k"])
    next
      case False
      with stop have "current_altitude (f n) \<le> 0" by simp
      then have "run_loop (f n) = Some (Inr (f n))" by (rule run_loop_landed)
      with a b False show ?thesis by (simp add: run_loop.simps [of "f k"])
    qed
  next
    case (Suc d)
    then have lt: "Suc k < n" and d: "n - Suc k = Suc d" by simp_all
    from step [OF Suc.prems(1)] have a: "0 < current_altitude (f k)"
      and b: "loop_body (f k) = Inr (f (Suc k))" by simp_all
    from cont [OF lt] have c: "\<not> 10000 < current_time (f (Suc k))" by simp
    from Suc.IH [OF lt d] a b c show ?case
      by (simp add: run_loop.simps [of "f k"])
  qed
  from this [of 0 "n - 1"] pos show ?thesis by simp
qed

lemma glide_state_0: "glide_state 0 = init long_glide_globals ground_phases [''Main'']"
  by (simp add: glide_state_def init_def long_glide_globals_def fun_eq_iff)

lemma glide_state_step:
  assumes "n < 20000"
  shows "loop_body (glide_state n) = Inr (glide_state (Suc n))"
proof -
  have "90 * pi / 180 = pi / 2" by simp
  with assms show ?thesis
    by (simp add: glide_state_def loop_defs ground_phases_def g_def replicate_append_same)
qed

lemma glide_state_fields:
  "current_altitude (glide_state n) = 20000 - real n"
  "current_time (glide_state n) = real n"
  by (simp_all add: glide_state_def)

lemma max_or_zero_replicate: "max_or_zero (replicate n 0) = 0"
proof -
  have "fold max (replicate k 0) (0::real) = 0" for k
    by (induction k) simp_all
  then show ?thesis
    by (cases n) (simp_all add: max_or_zero_def)
qed

lemma glide_state_results:
  "compile_results (glide_state (Suc n)) =
     Inr \<lparr>max_total_drag_force = 0, landing_velocity = 1, total_flight_time = real n,
          total_horizontal_range = real (Suc n), final_altitude = 20000 - real (Suc n),
          phase_results = [\<lparr>Phase = ''Main'', Max_Drag_Force = 0,
                             Deployment_Time = 0, Inflation_Time = 0\<rparr>]\<rparr>"
proof -
  have "max_or_zero (replicate (Suc n) 0) = 0"
    by (rule max_or_zero_replicate)
  then have "max_or_zero (0 # replicate n 0) = 0" by simp
  then show ?thesis
    by (simp add: glide_state_def compile_results_def last_or_zero_def last_map
        del: upt_Suc)
qed

lemma long_glide_loop:
  "run_loop (init long_glide_globals ground_phases [''Main'']) = Some (Inr (glide_state 10001))"
proof -
  have "run_loop (glide_state 0) = Some (Inr (glide_state 10001))"
  proof (rule run_loop_steps)
    fix k :: nat
    assume k: "k < 10001"
    then have "k < 20000" by simp
    then have "loop_body (glide_state k) = Inr (glide_state (Suc k))"
      by (rule glide_state_step)
    moreover from k have "0 < current_altitude (glide_state k)"
      by (simp add: glide_state_fields)
    ultimately show "0 < current_altitude (glide_state k)
        \<and> loop_body (glide_state k) = Inr (glide_state (Suc k))" by simp
  next
    fix k :: nat
    assume "Suc k < 10001"
    then show "current_time (glide_state (Suc k)) \<le> 10000"
      by (simp add: glide_state_fields)
  next
    show "10000 < current_time (glide_state 10001) \<or> current_altitude (glide_state 10001) \<le> 0"
      by (simp add: glide_state_fields)
  next
    show "(0::nat) < 10001" by simp
  qed
  then show ?thesis by (simp add: glide_state_0)
qed

lemma long_glide_run:
  "run (init long_glide_globals ground_phases [''Main'']) =
     Some (Inr \<lparr>max_total_drag_force = 0, landing_velocity = 1, total_flight_time = 10000,
                 total_horizontal_range = 10001, final_altitude = 9999,
                 phase_results = [\<lparr>Phase = ''Main'', Max_Drag_Force = 0,
                                    Deployment_Time = 0, Inflation_Time = 0\<rparr>]\<rparr>)"
  using glide_state_results [of 10000] by (simp add: run_def long_glide_loop)

theorem ceiling_exit_shows_in_final_altitude_witness:
  "(\<exists>s r. run_loop (init long_glide_globals ground_phases [''Main'']) = Some (Inr s)
       \<and> run (init long_glide_globals ground_phases [''Main'']) = Some (Inr r)
       \<and> 0 < current_altitude s \<and> 10000 < current_time s \<and> 0 < final_altitude r)
   \<and> (\<exists>s r. run_loop (init low_release_globals ground_phases [''Main'']) = Some (Inr s)
       \<and> run (init low_release_globals ground_phases [''Main'']) = Some (Inr r)
       \<and> current_altitude s \<le> 0 \<and> final_altitude r = 0)"
proof -
  have up: "0 < current_altitude (glide_state 10001)"
    by (simp add: glide_state_fields)
  from ceiling_exit_shows_in_final_altitude [OF long_glide_loop long_glide_run] up
  have "10000 < current_time (glide_state 10001)
      \<and> 0 < final_altitude \<lparr>max_total_drag_force = 0, landing_velocity = 1,
            total_flight_time = 10000, total_horizontal_range = 10001, final_altitude = 9999,
            phase_results = [\<lparr>Phase = ''Main'', Max_Drag_Force = 0,
                               Deployment_Time = 0, Inflation_Time = 0\<rparr>]\<rparr>"
    by blast
  with up long_glide_loop long_glide_run have glide:
    "\<exists>s r. run_loop (init long_glide_globals ground_phases [''Main'']) = Some (Inr s)
       \<and> run (init long_glide_globals ground_phases [''Main'']) = Some (Inr r)
       \<and> 0 < current_altitude s \<and> 10000 < current_time s \<and> 0 < final_altitude r"
    by blast
  from low_release_run obtain s r
    where s: "run_loop (init low_release_globals ground_phases [''Main'']) = Some (Inr s)"
      and r: "run (init low_release_globals ground_phases [''Main'']) = Some (Inr r)"
      and down: "current_altitude s \<le> 0"
    by blast
  from ceiling_exit_shows_in_final_altitude [OF s r] down have "final_altitude r = 0"
    by blast
  with s r down glide show ?thesis by blast
qed

text \<open>
  C3 as stated fails. The long glide leaves the loop because the time has passed
  10,000 s, at 9999 m above the ground, and \<open>run\<close> returns for it a summary of the same form
  as for a landed run, with the same six entries and none that records how the loop ended.
\<close>

theorem ceiling_run_ordinary_summary_counterexample:
  "map_option (map_sum id current_time)
       (run_loop (init long_glide_globals ground_phases [''Main''])) = Some (Inr 10001)
   \<and> map_option (map_sum id current_altitude)
       (run_loop (init long_glide_globals ground_phases [''Main''])) = Some (Inr 9999)
   \<and> run (init long_glide_globals ground_phases [''Main'']) =
       Some (Inr \<lparr>max_total_drag_force = 0, landing_velocity = 1, total_flight_time = 10000,
                   total_horizontal_range = 10001, final_altitude = 9999,
                   phase_results = [\<lparr>Phase = ''Main'', Max_Drag_Force = 0,
                                      Deployment_Time = 0, Inflation_Time = 0\<rparr>]\<rparr>)"
  by (simp add: long_glide_loop long_glide_run glide_state_fields)

section \<open>The deployment state machine\<close>

lemma deploy_phase_result:
  assumes "deploy_phase s p = Inr s'"
  obtains pr where "phase_params s p = Some pr"
    and "deployed_phases s' = insert p (deployed_phases s)"
    and "active_phases s' = active_phases s @ [new_entry s p pr]"
    and "phase_deployment_times s' = (phase_deployment_times s)(p \<mapsto> current_time s)"
    and "phase_inflation_times s' =
           (phase_inflation_times s)(p \<mapsto> inflation_time (new_entry s p pr))"
  using assms by (auto simp: deploy_phase_def Let_def new_entry_def split: option.splits)

lemma threshold_reached_cong:
  assumes "phase_params s' = phase_params s" and "current_altitude s' = current_altitude s"
  shows "threshold_reached s' = threshold_reached s"
proof
  fix p
  from assms show "threshold_reached s' p = threshold_reached s p"
    by (simp add: threshold_reached_def split: option.splits)
qed

lemma new_entry_cong:
  assumes "current_time s' = current_time s" and "current_velocity s' = current_velocity s"
  shows "new_entry s' = new_entry s"
proof (intro ext)
  fix p pr
  from assms show "new_entry s' p pr = new_entry s p pr"
    by (simp add: new_entry_def)
qed

lemma check_phases_Cons_cases:
  assumes "check_phases (p # ps) s = Inr s'"
  obtains (skip) "p \<in> deployed_phases s \<or> \<not> threshold_reached s p"
      and "check_phases ps s = Inr s'"
    | (deploy) s1 where "p \<notin> deployed_phases s" and "threshold_reached s p"
      and "deploy_phase s p = Inr s1" and "check_phases ps s1 = Inr s'"
  using assms
  by (auto simp: threshold_reached_def split: if_splits option.splits sum.splits)

text \<open>
  What one call of \<open>_check_phase_deployments\<close> does, for the phases \<open>ps\<close> still to visit:
  it appends entries \<open>new\<close> for exactly the phases of \<open>ps\<close> that are not deployed and have
  reached their threshold, each once and in the order of \<open>ps\<close>.
\<close>

lemma check_phases_result:
  "check_phases ps s = Inr s' \<Longrightarrow>
     \<exists>new. active_phases s' = active_phases s @ new
       \<and> deployed_phases s' = deployed_phases s \<union> phase ` set new
       \<and> phase ` set new = {p \<in> set ps. p \<notin> deployed_phases s \<and> threshold_reached s p}
       \<and> distinct (map phase new)
       \<and> (\<forall>a \<in> set new. phase_params s (phase a) = Some (params a)
              \<and> a = new_entry s (phase a) (params a))
       \<and> (case new of
             [] \<Rightarrow> True
           | a # _ \<Rightarrow> find (\<lambda>p. p \<notin> deployed_phases s \<and> threshold_reached s p) ps
                       = Some (phase a))"
proof (induction ps arbitrary: s)
  case Nil
  then show ?case by simp
next
  case (Cons p ps)
  from Cons.prems show ?case
  proof (cases rule: check_phases_Cons_cases)
    case skip
    from Cons.IH [OF skip(2)] obtain new where new: "active_phases s' = active_phases s @ new"
       "deployed_phases s' = deployed_phases s \<union> phase ` set new"
       "phase ` set new = {p \<in> set ps. p \<notin> deployed_phases s \<and> threshold_reached s p}"
       "distinct (map phase new)"
       "\<forall>a \<in> set new. phase_params s (phase a) = Some (params a)
              \<and> a = new_entry s (phase a) (params a)"
       "case new of [] \<Rightarrow> True
           | a # _ \<Rightarrow> find (\<lambda>p. p \<notin> deployed_phases s \<and> threshold_reached s p) ps
                       = Some (phase a)"
      by blast
    from new(3) skip(1)
    have "phase ` set new = {q \<in> set (p # ps). q \<notin> deployed_phases s \<and> threshold_reached s q}"
      by auto
    moreover from new(6) skip(1)
    have "case new of [] \<Rightarrow> True
           | a # _ \<Rightarrow> find (\<lambda>p. p \<notin> deployed_phases s \<and> threshold_reached s p) (p # ps)
                       = Some (phase a)"
      by (auto split: list.splits)
    ultimately show ?thesis using new(1,2,4,5) by blast
  next
    case (deploy s1)
    from deploy(3) obtain pr where pr: "phase_params s p = Some pr"
      and d1: "deployed_phases s1 = insert p (deployed_phases s)"
      and a1: "active_phases s1 = active_phases s @ [new_entry s p pr]"
      by (rule deploy_phase_result)
    note u = deploy_phase_unchanged [OF deploy(3)]
    have tr: "threshold_reached s1 = threshold_reached s"
      by (rule threshold_reached_cong) (simp_all add: u)
    have ne: "new_entry s1 = new_entry s"
      by (rule new_entry_cong) (simp_all add: u)
    from Cons.IH [OF deploy(4)] obtain new where new: "active_phases s' = active_phases s1 @ new"
       "deployed_phases s' = deployed_phases s1 \<union> phase ` set new"
       "phase ` set new = {p \<in> set ps. p \<notin> deployed_phases s1 \<and> threshold_reached s1 p}"
       "distinct (map phase new)"
       "\<forall>a \<in> set new. phase_params s1 (phase a) = Some (params a)
              \<and> a = new_entry s1 (phase a) (params a)"
      by blast
    let ?new = "new_entry s p pr # new"
    have ph: "phase (new_entry s p pr) = p" by (simp add: new_entry_def)
    have pa: "params (new_entry s p pr) = pr" by (simp add: new_entry_def)
    from new(1) a1 have 1: "active_phases s' = active_phases s @ ?new" by simp
    from new(2) d1 ph have 2: "deployed_phases s' = deployed_phases s \<union> phase ` set ?new"
      by auto
    from new(3) d1 tr deploy(1,2) ph
    have 3: "phase ` set ?new
        = {q \<in> set (p # ps). q \<notin> deployed_phases s \<and> threshold_reached s q}"
      by auto
    from new(3) d1 have "p \<notin> phase ` set new" by auto
    with new(4) ph have 4: "distinct (map phase ?new)" by simp
    from new(5) ne u pr ph pa
    have 5: "\<forall>a \<in> set ?new. phase_params s (phase a) = Some (params a)
              \<and> a = new_entry s (phase a) (params a)"
      by simp
    from deploy(1,2) ph
    have 6: "case ?new of [] \<Rightarrow> True
           | a # _ \<Rightarrow> find (\<lambda>p. p \<notin> deployed_phases s \<and> threshold_reached s p) (p # ps)
                       = Some (phase a)"
      by simp
    from 1 2 3 4 5 6 show ?thesis by blast
  qed
qed

lemma calculate_forces_unchanged:
  assumes "calculate_forces s = Inr s'"
  shows "active_phases s' = active_phases s \<and> deployed_phases s' = deployed_phases s
     \<and> phase_deployment_times s' = phase_deployment_times s
     \<and> phase_inflation_times s' = phase_inflation_times s
     \<and> phase_params s' = phase_params s \<and> selected_phases s' = selected_phases s
     \<and> current_time s' = current_time s \<and> current_altitude s' = current_altitude s
     \<and> current_velocity s' = current_velocity s \<and> dt s' = dt s"
proof -
  from calculate_forces_result [OF assms] obtain m x
    where "s' = s\<lparr>phase_drag_forces := m, total_drag_force := total_drag_force s @ [x]\<rparr>"
    by blast
  then show ?thesis by simp
qed

lemma loop_body_after_check:
  assumes "loop_body s = Inr s'"
  obtains s1 where "check_phases (selected_phases s) s = Inr s1"
    and "active_phases s' = active_phases s1" and "deployed_phases s' = deployed_phases s1"
    and "phase_deployment_times s' = phase_deployment_times s1"
    and "phase_inflation_times s' = phase_inflation_times s1"
proof -
  from assms obtain s1 s2 s3 where c: "check_phase_deployments s = Inr s1"
    and f: "calculate_forces s1 = Inr s2"
    and u: "update_dynamics s2 = Inr s3"
    and s': "s' = (store_data s3)\<lparr>current_time := current_time s3 + dt s3\<rparr>"
    by (rule loop_body_elim)
  note f' = calculate_forces_unchanged [OF f]
  note u' = update_dynamics_fields [OF u]
  from c have "check_phases (selected_phases s) s = Inr s1"
    by (simp add: check_phase_deployments_def)
  moreover have "active_phases s' = active_phases s1"
    by (simp add: s' store_data_def u' f')
  moreover have "deployed_phases s' = deployed_phases s1"
    by (simp add: s' store_data_def u' f')
  moreover have "phase_deployment_times s' = phase_deployment_times s1"
    by (simp add: s' store_data_def u' f')
  moreover have "phase_inflation_times s' = phase_inflation_times s1"
    by (simp add: s' store_data_def u' f')
  ultimately show ?thesis by (rule that)
qed

lemma loop_body_deployment:
  assumes "loop_body s = Inr s'"
  obtains new where "active_phases s' = active_phases s @ new"
    and "deployed_phases s' = deployed_phases s \<union> phase ` set new"
    and "phase ` set new
           = {p \<in> set (selected_phases s). p \<notin> deployed_phases s \<and> threshold_reached s p}"
    and "distinct (map phase new)"
    and "\<forall>a \<in> set new. phase_params s (phase a) = Some (params a)
              \<and> a = new_entry s (phase a) (params a)"
    and "case new of
           [] \<Rightarrow> True
         | a # _ \<Rightarrow> find (\<lambda>p. p \<notin> deployed_phases s \<and> threshold_reached s p)
                       (selected_phases s) = Some (phase a)"
proof -
  from assms obtain s1 where c: "check_phases (selected_phases s) s = Inr s1"
    and e: "active_phases s' = active_phases s1" "deployed_phases s' = deployed_phases s1"
    by (rule loop_body_after_check)
  from check_phases_result [OF c]
  obtain new where n: "active_phases s1 = active_phases s @ new"
    "deployed_phases s1 = deployed_phases s \<union> phase ` set new"
    "phase ` set new
           = {p \<in> set (selected_phases s). p \<notin> deployed_phases s \<and> threshold_reached s p}"
    "distinct (map phase new)"
    "\<forall>a \<in> set new. phase_params s (phase a) = Some (params a)
              \<and> a = new_entry s (phase a) (params a)"
    "case new of
           [] \<Rightarrow> True
         | a # _ \<Rightarrow> find (\<lambda>p. p \<notin> deployed_phases s \<and> threshold_reached s p)
                       (selected_phases s) = Some (phase a)"
    by blast
  from n(1,2) e have "active_phases s' = active_phases s @ new"
    "deployed_phases s' = deployed_phases s \<union> phase ` set new" by simp_all
  then show ?thesis using n(3-6) by (rule that)
qed

lemma reset_phase_drag_result:
  "distinct ps \<Longrightarrow> reset_phase_drag ps m = Inr m' \<Longrightarrow>
     (\<forall>p \<in> set ps. \<exists>xs. m p = Some xs \<and> m' p = Some (xs @ [0]))
     \<and> (\<forall>p. p \<notin> set ps \<longrightarrow> m' p = m p)"
proof (induction ps arbitrary: m)
  case Nil
  then show ?case by simp
next
  case (Cons p ps)
  from Cons.prems(2) obtain xs where xs: "m p = Some xs"
    and r: "reset_phase_drag ps (m(p \<mapsto> xs @ [0])) = Inr m'"
    by (auto split: option.splits)
  from Cons.prems(1) have d: "distinct ps" and np: "p \<notin> set ps" by simp_all
  from Cons.IH [OF d r]
  have a: "\<forall>q \<in> set ps. \<exists>ys. (m(p \<mapsto> xs @ [0])) q = Some ys \<and> m' q = Some (ys @ [0])"
    and b: "\<forall>q. q \<notin> set ps \<longrightarrow> m' q = (m(p \<mapsto> xs @ [0])) q"
    by simp_all
  from b np have "m' p = Some (xs @ [0])" by simp
  moreover have "\<exists>ys. m q = Some ys \<and> m' q = Some (ys @ [0])" if q: "q \<in> set ps" for q
  proof -
    from q np have "q \<noteq> p" by auto
    with a q show ?thesis by auto
  qed
  moreover from b have "\<forall>q. q \<notin> set (p # ps) \<longrightarrow> m' q = m q" by simp
  ultimately show ?case using xs by auto
qed

lemma set_last_result:
  assumes "set_last xs v = Inr ys"
  shows "xs \<noteq> [] \<and> ys = butlast xs @ [v]"
proof -
  from assms have ne: "xs \<noteq> []" and ys: "ys = xs[length xs - 1 := v]"
    by (auto simp: set_last_def split: if_splits)
  from ne have "xs = butlast xs @ [last xs]" by simp
  then have "xs[length xs - 1 := v] = (butlast xs @ [last xs])[length (butlast xs) := v]"
    by simp
  also have "\<dots> = butlast xs @ [v]" by (simp only: list_update_length)
  finally show ?thesis using ne ys by simp
qed

lemma active_drag_result:
  "active_drag as s m t = Inr (m', t') \<Longrightarrow>
     (\<forall>p. p \<notin> phase ` set as \<longrightarrow> m' p = m p)
     \<and> (\<forall>p xs. m p = Some xs \<longrightarrow>
           (\<exists>ys. m' p = Some ys \<and> length ys = length xs \<and> butlast ys = butlast xs))"
proof (induction as arbitrary: m t)
  case Nil
  then show ?case by simp
next
  case (Cons a as)
  from Cons.prems obtain f xs xs' where xs: "m (phase a) = Some xs"
    and sl: "set_last xs f = Inr xs'"
    and r: "active_drag as s (m(phase a \<mapsto> xs')) (t + f) = Inr (m', t')"
    by (auto split: sum.splits option.splits)
  from set_last_result [OF sl] have ne: "xs \<noteq> []" and xs': "xs' = butlast xs @ [f]"
    by simp_all
  from Cons.IH [OF r]
  have a: "\<forall>p. p \<notin> phase ` set as \<longrightarrow> m' p = (m(phase a \<mapsto> xs')) p"
    and b: "\<forall>p ys. (m(phase a \<mapsto> xs')) p = Some ys \<longrightarrow>
           (\<exists>zs. m' p = Some zs \<and> length zs = length ys \<and> butlast zs = butlast ys)"
    by simp_all
  from a have 1: "\<forall>p. p \<notin> phase ` set (a # as) \<longrightarrow> m' p = m p" by simp
  have 2: "\<exists>zs. m' p = Some zs \<and> length zs = length ys \<and> butlast zs = butlast ys"
    if p: "m p = Some ys" for p ys
  proof (cases "p = phase a")
    case True
    with p xs have "ys = xs" by simp
    moreover from True have "(m(phase a \<mapsto> xs')) p = Some xs'" by simp
    with b obtain zs where "m' p = Some zs" "length zs = length xs'"
      "butlast zs = butlast xs'" by blast
    ultimately show ?thesis using xs' ne by simp
  next
    case False
    with p b show ?thesis by simp
  qed
  from 1 2 show ?case by blast
qed

text \<open>
  One call of \<open>_calculate_forces\<close> extends the drag series of every selected phase by one
  entry, which is 0 for a phase with no entry among the active phases.
\<close>

lemma calculate_forces_series:
  assumes "calculate_forces s = Inr s'" and "distinct (selected_phases s)"
    and "p \<in> set (selected_phases s)"
  shows "\<exists>xs v. phase_drag_forces s p = Some xs \<and> phase_drag_forces s' p = Some (xs @ [v])
           \<and> (p \<notin> phase ` set (active_phases s) \<longrightarrow> v = 0)"
proof -
  from assms(1) obtain m m' t where r: "reset_phase_drag (selected_phases s) (phase_drag_forces s) = Inr m"
    and a: "active_drag (active_phases s) s m 0 = Inr (m', t)"
    and m': "phase_drag_forces s' = m'"
    by (auto simp: calculate_forces_def split: sum.splits)
  from reset_phase_drag_result [OF assms(2) r] assms(3) obtain xs
    where xs: "phase_drag_forces s p = Some xs" and m: "m p = Some (xs @ [0])" by blast
  from active_drag_result [OF a] m obtain ys where ys: "m' p = Some ys"
    and len: "length ys = length (xs @ [0])" and bl: "butlast ys = butlast (xs @ [0])"
    by blast
  from len have "ys \<noteq> []" by auto
  then have "ys = butlast ys @ [last ys]" by simp
  with bl have e: "ys = xs @ [last ys]" by simp
  have "last ys = 0" if "p \<notin> phase ` set (active_phases s)"
  proof -
    from active_drag_result [OF a] that have "m' p = m p" by blast
    with m ys have "ys = xs @ [0]" by simp
    then show ?thesis by simp
  qed
  with e have "phase_drag_forces s' p = Some (xs @ [last ys])
      \<and> (p \<notin> phase ` set (active_phases s) \<longrightarrow> last ys = 0)"
    using ys m' by simp
  with xs show ?thesis by blast
qed

lemma loop_body_series:
  assumes "loop_body s = Inr s'" and "distinct (selected_phases s)"
    and "p \<in> set (selected_phases s)"
    and "phase ` set (active_phases s) \<subseteq> deployed_phases s"
  shows "\<exists>xs v. phase_drag_forces s p = Some xs \<and> phase_drag_forces s' p = Some (xs @ [v])
           \<and> (p \<notin> deployed_phases s' \<longrightarrow> v = 0)"
proof -
  from assms(1) obtain s1 s2 s3 where c: "check_phase_deployments s = Inr s1"
    and f: "calculate_forces s1 = Inr s2"
    and u: "update_dynamics s2 = Inr s3"
    and s': "s' = (store_data s3)\<lparr>current_time := current_time s3 + dt s3\<rparr>"
    by (rule loop_body_elim)
  note c' = c [unfolded check_phase_deployments_def]
  note u1 = check_phases_unchanged_aux [OF c']
  note f' = calculate_forces_unchanged [OF f]
  note u' = update_dynamics_fields [OF u]
  from check_phases_result [OF c'] obtain new
    where "active_phases s1 = active_phases s @ new"
      and "deployed_phases s1 = deployed_phases s \<union> phase ` set new" by blast
  with assms(4) have sub: "phase ` set (active_phases s1) \<subseteq> deployed_phases s1"
    by (simp add: image_Un) blast
  from u1 assms(2,3) have "distinct (selected_phases s1)" "p \<in> set (selected_phases s1)"
    by simp_all
  from calculate_forces_series [OF f this] obtain xs v
    where xs: "phase_drag_forces s1 p = Some xs" and v: "phase_drag_forces s2 p = Some (xs @ [v])"
      and z: "p \<notin> phase ` set (active_phases s1) \<longrightarrow> v = 0" by blast
  have e: "phase_drag_forces s' = phase_drag_forces s2"
    by (simp add: s' store_data_def u')
  have d: "deployed_phases s' = deployed_phases s1"
    by (simp add: s' store_data_def u' f')
  from u1 have "phase_drag_forces s1 = phase_drag_forces s" by simp
  with xs have "phase_drag_forces s p = Some xs" by simp
  moreover from v e have "phase_drag_forces s' p = Some (xs @ [v])" by simp
  moreover from z sub d have "p \<notin> deployed_phases s' \<longrightarrow> v = 0" by blast
  ultimately show ?thesis by blast
qed

section \<open>Single deployment\<close>

lemma loop_body_deployed:
  assumes "loop_body s = Inr s'"
  shows "deployed_phases s' = deployed_phases s
           \<union> {p \<in> set (selected_phases s). p \<notin> deployed_phases s \<and> threshold_reached s p}"
proof (rule loop_body_deployment [OF assms])
  fix new
  assume "deployed_phases s' = deployed_phases s \<union> phase ` set new"
    and "phase ` set new
           = {p \<in> set (selected_phases s). p \<notin> deployed_phases s \<and> threshold_reached s p}"
  then show ?thesis by simp
qed

lemma loop_body_active:
  assumes "loop_body s = Inr s'"
  shows "\<exists>new. active_phases s' = active_phases s @ new
           \<and> deployed_phases s' = deployed_phases s \<union> phase ` set new
           \<and> phase ` set new \<inter> deployed_phases s = {}
           \<and> distinct (map phase new)
           \<and> (\<forall>a \<in> set new. phase_params s (phase a) = Some (params a)
                  \<and> a = new_entry s (phase a) (params a))"
proof (rule loop_body_deployment [OF assms])
  fix new
  assume a: "active_phases s' = active_phases s @ new"
    and d: "deployed_phases s' = deployed_phases s \<union> phase ` set new"
    and n: "phase ` set new
           = {p \<in> set (selected_phases s). p \<notin> deployed_phases s \<and> threshold_reached s p}"
    and dn: "distinct (map phase new)"
    and e: "\<forall>a \<in> set new. phase_params s (phase a) = Some (params a)
              \<and> a = new_entry s (phase a) (params a)"
  from n have "phase ` set new \<inter> deployed_phases s = {}" by auto
  with a d dn e show ?thesis by blast
qed

lemma deployment_inv_step:
  assumes "deployment_inv s" and "loop_body s = Inr s'"
  shows "deployment_inv s'"
proof -
  from loop_body_active [OF assms(2)] obtain new
    where a: "active_phases s' = active_phases s @ new"
    and d: "deployed_phases s' = deployed_phases s \<union> phase ` set new"
    and n: "phase ` set new \<inter> deployed_phases s = {}"
    and dn: "distinct (map phase new)"
    by blast
  from assms(1) have i: "phase ` set (active_phases s) = deployed_phases s"
    and di: "distinct (map phase (active_phases s))"
    by (simp_all add: deployment_inv_def)
  from n i have "phase ` set (active_phases s) \<inter> phase ` set new = {}" by auto
  with di dn a have "distinct (map phase (active_phases s'))" by simp
  moreover from a d i have "phase ` set (active_phases s') = deployed_phases s'"
    by (simp add: image_Un)
  ultimately show ?thesis by (simp add: deployment_inv_def)
qed

lemma deployment_inv_iter:
  assumes "iter n (init gp pp sel) = Inr s"
  shows "deployment_inv s"
proof -
  have "deployment_inv (init gp pp sel)"
    by (simp add: deployment_inv_def init_simps)
  with assms show ?thesis
    by (rule iter_invariant) (rule deployment_inv_step)
qed

lemma config_iter:
  assumes "iter n s0 = Inr s"
  shows "selected_phases s = selected_phases s0 \<and> phase_params s = phase_params s0
     \<and> dt s = dt s0"
  using assms
proof (induction n arbitrary: s)
  case 0
  then show ?case by simp
next
  case (Suc n)
  from Suc.prems obtain sn where sn: "iter n s0 = Inr sn" and b: "loop_body sn = Inr s"
    by (rule iter_Suc_endE)
  from loop_body_fields [OF b] Suc.IH [OF sn] show ?case by simp
qed

lemma filter_phase_count:
  "distinct (map phase as) \<Longrightarrow>
     length (filter (\<lambda>a. phase a = p) as) = (if p \<in> phase ` set as then 1 else 0)"
  by (induction as) auto

lemma deployed_iff_threshold_reached:
  assumes "p \<in> set sel"
  shows "iter n (init gp pp sel) = Inr s \<Longrightarrow>
     (p \<in> deployed_phases s \<longleftrightarrow>
        (\<exists>j<n. \<exists>sj. iter j (init gp pp sel) = Inr sj \<and> threshold_reached sj p))"
proof (induction n arbitrary: s)
  case 0
  then have "s = init gp pp sel" by simp
  then show ?case by (simp add: init_simps)
next
  case (Suc n)
  from Suc.prems obtain sn where sn: "iter n (init gp pp sel) = Inr sn"
    and b: "loop_body sn = Inr s"
    by (rule iter_Suc_endE)
  note IH = Suc.IH [OF sn]
  from config_iter [OF sn] have sel: "selected_phases sn = sel"
    by (simp add: init_simps)
  from loop_body_deployed [OF b] sel assms
  have step: "p \<in> deployed_phases s \<longleftrightarrow> p \<in> deployed_phases sn \<or> threshold_reached sn p"
    by auto
  show ?case
  proof
    assume "p \<in> deployed_phases s"
    with step consider "p \<in> deployed_phases sn" | "threshold_reached sn p" by blast
    then show "\<exists>j<Suc n. \<exists>sj. iter j (init gp pp sel) = Inr sj \<and> threshold_reached sj p"
    proof cases
      case 1
      with IH obtain j sj where "j < n" "iter j (init gp pp sel) = Inr sj"
        "threshold_reached sj p" by blast
      then have "j < Suc n \<and> iter j (init gp pp sel) = Inr sj \<and> threshold_reached sj p"
        by simp
      then show ?thesis by blast
    next
      case 2
      with sn have "n < Suc n \<and> iter n (init gp pp sel) = Inr sn \<and> threshold_reached sn p"
        by simp
      then show ?thesis by blast
    qed
  next
    assume "\<exists>j<Suc n. \<exists>sj. iter j (init gp pp sel) = Inr sj \<and> threshold_reached sj p"
    then obtain j sj where j: "j < Suc n" and sj: "iter j (init gp pp sel) = Inr sj"
      and r: "threshold_reached sj p" by blast
    show "p \<in> deployed_phases s"
    proof (cases "j = n")
      case True
      with sj sn r step show ?thesis by simp
    next
      case False
      with j have "j < n" by simp
      with sj r IH step show ?thesis by blast
    qed
  qed
qed

lemma deployed_mono:
  "iter n s0 = Inr s \<Longrightarrow> i \<le> n \<Longrightarrow> iter i s0 = Inr si \<Longrightarrow>
     deployed_phases si \<subseteq> deployed_phases s"
proof (induction n arbitrary: s)
  case 0
  then show ?case by simp
next
  case (Suc n)
  from Suc.prems(1) obtain sn where sn: "iter n s0 = Inr sn" and b: "loop_body sn = Inr s"
    by (rule iter_Suc_endE)
  show ?case
  proof (cases "i = Suc n")
    case True
    with Suc.prems show ?thesis by simp
  next
    case False
    with Suc.prems(2) have "i \<le> n" by simp
    from Suc.IH [OF sn this Suc.prems(3)] have "deployed_phases si \<subseteq> deployed_phases sn" .
    moreover from loop_body_deployed [OF b] have "deployed_phases sn \<subseteq> deployed_phases s"
      by blast
    ultimately show ?thesis by blast
  qed
qed

lemma drag_series_zero_before_deployment:
  assumes "distinct sel" and "p \<in> set sel"
  shows "iter n (init gp pp sel) = Inr s \<Longrightarrow>
     \<exists>xs. phase_drag_forces s p = Some xs \<and> length xs = n
       \<and> (\<forall>k<n. \<forall>sk. iter (Suc k) (init gp pp sel) = Inr sk \<longrightarrow>
              p \<notin> deployed_phases sk \<longrightarrow> xs ! k = 0)"
proof (induction n arbitrary: s)
  case 0
  then have "s = init gp pp sel" by simp
  with assms(2) show ?case by (simp add: init_simps)
next
  case (Suc n)
  from Suc.prems obtain sn where sn: "iter n (init gp pp sel) = Inr sn"
    and b: "loop_body sn = Inr s"
    by (rule iter_Suc_endE)
  from Suc.IH [OF sn] obtain xs where xs: "phase_drag_forces sn p = Some xs"
    and len: "length xs = n"
    and z: "\<forall>k<n. \<forall>sk. iter (Suc k) (init gp pp sel) = Inr sk \<longrightarrow>
              p \<notin> deployed_phases sk \<longrightarrow> xs ! k = 0"
    by blast
  from config_iter [OF sn] have sel: "selected_phases sn = sel"
    by (simp add: init_simps)
  from deployment_inv_iter [OF sn]
  have "phase ` set (active_phases sn) \<subseteq> deployed_phases sn"
    by (simp add: deployment_inv_def)
  with b assms sel obtain ys v where "phase_drag_forces sn p = Some ys"
    and v: "phase_drag_forces s p = Some (ys @ [v])"
    and v0: "p \<notin> deployed_phases s \<longrightarrow> v = 0"
    using loop_body_series [of sn s p] by auto
  with xs have ys: "ys = xs" by simp
  have "(xs @ [v]) ! k = 0"
    if k: "k < Suc n" and sk: "iter (Suc k) (init gp pp sel) = Inr sk"
      and nd: "p \<notin> deployed_phases sk" for k sk
  proof (cases "k = n")
    case True
    with sk Suc.prems have "sk = s" by simp
    with nd v0 have "v = 0" by simp
    with True len show ?thesis by (simp add: nth_append)
  next
    case False
    with k have "k < n" by simp
    with z sk nd len show ?thesis by (simp add: nth_append)
  qed
  with v ys len show ?case by simp
qed

text \<open>
  C2. Single deployment: in every state that the loop reaches from \<open>__init__\<close> with distinct
  selected phases, a selected phase is deployed exactly when its threshold was reached at the
  start of an earlier pass, so it deploys in the first such pass; no phase ever leaves the
  deployed set; the phase has one active entry when deployed and none before; and its drag
  series has one entry per pass, which is 0 for every pass after which the phase was still
  not deployed.
\<close>

theorem single_deployment:
  assumes "distinct sel" and "p \<in> set sel" and "iter n (init gp pp sel) = Inr s"
  shows "(p \<in> deployed_phases s \<longleftrightarrow>
            (\<exists>j<n. \<exists>sj. iter j (init gp pp sel) = Inr sj \<and> threshold_reached sj p))
     \<and> (\<forall>i\<le>n. \<forall>si. iter i (init gp pp sel) = Inr si \<longrightarrow>
            deployed_phases si \<subseteq> deployed_phases s)
     \<and> length (filter (\<lambda>a. phase a = p) (active_phases s))
          = (if p \<in> deployed_phases s then 1 else 0)
     \<and> (\<exists>xs. phase_drag_forces s p = Some xs \<and> length xs = n
           \<and> (\<forall>k<n. \<forall>sk. iter (Suc k) (init gp pp sel) = Inr sk \<longrightarrow>
                  p \<notin> deployed_phases sk \<longrightarrow> xs ! k = 0))"
proof -
  from deployment_inv_iter [OF assms(3)]
  have "length (filter (\<lambda>a. phase a = p) (active_phases s))
          = (if p \<in> deployed_phases s then 1 else 0)"
    using filter_phase_count [of "active_phases s" p] by (simp add: deployment_inv_def)
  moreover have "\<forall>i\<le>n. \<forall>si. iter i (init gp pp sel) = Inr si \<longrightarrow>
            deployed_phases si \<subseteq> deployed_phases s"
    using deployed_mono [OF assms(3)] by blast
  moreover note deployed_iff_threshold_reached [OF assms(2,3)]
  moreover note drag_series_zero_before_deployment [OF assms]
  ultimately show ?thesis by (intro conjI)
qed

lemma staged_two_passes:
  "\<exists>s1 s2. iter 1 (init staged_globals staged_phases [''Main'', ''Drogue'']) = Inr s1
     \<and> iter 2 (init staged_globals staged_phases [''Main'', ''Drogue'']) = Inr s2
     \<and> deployed_phases s1 = {''Drogue''} \<and> threshold_reached s1 ''Main''
     \<and> current_velocity s1 = 981 / 200"
  by (simp add: numeral_2_eq_2 loop_defs init_def staged_globals_def staged_phases_def
      deploy_phase_def calculate_inflation_time_def calculate_drag_force_def set_last_def
      threshold_reached_def g_def cos_60)

theorem single_deployment_witness:
  "distinct [''Main'', ''Drogue''] \<and> ''Main'' \<in> set [''Main'', ''Drogue'']
     \<and> (\<exists>s. iter 2 (init staged_globals staged_phases [''Main'', ''Drogue'']) = Inr s
           \<and> ''Main'' \<in> deployed_phases s
           \<and> length (filter (\<lambda>a. phase a = ''Main'') (active_phases s)) = 1
           \<and> (\<exists>xs. phase_drag_forces s ''Main'' = Some xs \<and> length xs = 2 \<and> xs ! 0 = 0))"
proof -
  have d: "distinct [''Main'', ''Drogue'']" and m: "''Main'' \<in> set [''Main'', ''Drogue'']"
    by simp_all
  from staged_two_passes obtain s1 s2
    where s1: "iter 1 (init staged_globals staged_phases [''Main'', ''Drogue'']) = Inr s1"
      and s2: "iter 2 (init staged_globals staged_phases [''Main'', ''Drogue'']) = Inr s2"
      and d1: "deployed_phases s1 = {''Drogue''}" and r: "threshold_reached s1 ''Main''"
    by blast
  note sd = single_deployment [OF d m s2]
  from s1 r have "\<exists>j<2. \<exists>sj. iter j (init staged_globals staged_phases [''Main'', ''Drogue'']) = Inr sj
      \<and> threshold_reached sj ''Main''"
    by (intro exI [of _ 1] exI [of _ s1]) simp
  with sd have dep: "''Main'' \<in> deployed_phases s2" by blast
  with sd have cnt: "length (filter (\<lambda>a. phase a = ''Main'') (active_phases s2)) = 1"
    by simp
  from sd obtain xs where xs: "phase_drag_forces s2 ''Main'' = Some xs" "length xs = 2"
    and z: "\<forall>k<2. \<forall>sk. iter (Suc k) (init staged_globals staged_phases [''Main'', ''Drogue'']) = Inr sk
              \<longrightarrow> ''Main'' \<notin> deployed_phases sk \<longrightarrow> xs ! k = 0"
    by blast
  from s1 d1 z have "xs ! 0 = 0" by simp
  with d m s2 dep cnt xs show ?thesis by blast
qed

section \<open>The mass of a pass\<close>

lemma then_do_Inr:
  "then_do r f = Inr y \<longleftrightarrow> (\<exists>x. r = Inr x \<and> f x = Inr y)"
  by (cases r) (simp_all add: then_do_def)

lemma then_do_simps:
  "then_do (Inl e) f = Inl e" "then_do (Inr x) f = f x"
  by (simp_all add: then_do_def)

lemma pass_mass_elim:
  assumes "pass_mass s = Inr m"
  obtains s1 where "check_phases (selected_phases s) s = Inr s1"
    and "get_current_mass s1 = Inr m"
proof -
  from assms obtain s1 s2 where c: "check_phase_deployments s = Inr s1"
    and f: "calculate_forces s1 = Inr s2" and g: "get_current_mass s2 = Inr m"
    by (auto simp: pass_mass_def then_do_Inr)
  from calculate_forces_unchanged [OF f] have "get_current_mass s2 = get_current_mass s1"
    by (simp add: get_current_mass_def split: list.splits)
  with c g that show ?thesis by (simp add: check_phase_deployments_def)
qed

text \<open>
  The head of the active phases across one deployment check: it stays once there is one,
  and otherwise becomes the entry of the first phase whose threshold is reached.
\<close>

lemma check_phases_head:
  assumes "check_phases (selected_phases s) s = Inr s1" and "deployment_inv s"
  shows "(active_phases s \<noteq> [] \<longrightarrow> active_phases s1 \<noteq> []
            \<and> hd (active_phases s1) = hd (active_phases s))
     \<and> (active_phases s = [] \<longrightarrow>
          (case first_reached s of
             None \<Rightarrow> active_phases s1 = []
           | Some q \<Rightarrow> active_phases s1 \<noteq> [] \<and> phase (hd (active_phases s1)) = q
                \<and> phase_params s q = Some (params (hd (active_phases s1)))))"
proof -
  from check_phases_result [OF assms(1)] obtain new
    where a: "active_phases s1 = active_phases s @ new"
      and n: "phase ` set new = {p \<in> set (selected_phases s).
                 p \<notin> deployed_phases s \<and> threshold_reached s p}"
      and e: "\<forall>a \<in> set new. phase_params s (phase a) = Some (params a)
              \<and> a = new_entry s (phase a) (params a)"
      and h: "case new of [] \<Rightarrow> True
           | a # _ \<Rightarrow> find (\<lambda>p. p \<notin> deployed_phases s \<and> threshold_reached s p)
                       (selected_phases s) = Some (phase a)"
    by blast
  from a have keep: "active_phases s \<noteq> [] \<longrightarrow> active_phases s1 \<noteq> []
            \<and> hd (active_phases s1) = hd (active_phases s)"
    by simp
  have start: "case first_reached s of
             None \<Rightarrow> active_phases s1 = []
           | Some q \<Rightarrow> active_phases s1 \<noteq> [] \<and> phase (hd (active_phases s1)) = q
                \<and> phase_params s q = Some (params (hd (active_phases s1)))"
    if empty: "active_phases s = []"
  proof -
    from empty assms(2) have d: "deployed_phases s = {}"
      by (simp add: deployment_inv_def)
    show ?thesis
    proof (cases "first_reached s")
      case None
      then have "\<forall>p \<in> set (selected_phases s). \<not> threshold_reached s p"
        by (simp add: first_reached_def find_None_iff)
      with n have "phase ` set new = {}" by auto
      then have "new = []" by simp
      with a empty None show ?thesis by simp
    next
      case (Some q)
      then have "q \<in> set (selected_phases s)" and "threshold_reached s q"
        by (auto simp: first_reached_def find_Some_iff)
      with n d have "q \<in> phase ` set new" by simp
      then obtain b bs where new: "new = b # bs" by (cases new) auto
      with h d have "find (threshold_reached s) (selected_phases s) = Some (phase b)"
        by simp
      with Some have "phase b = q" by (simp add: first_reached_def)
      moreover from e new have "phase_params s (phase b) = Some (params b)" by simp
      ultimately show ?thesis using a empty new Some by simp
    qed
  qed
  from keep start show ?thesis by blast
qed

lemma active_head_iter:
  "iter n (init gp pp sel) = Inr s \<Longrightarrow>
     (active_phases s = [] \<longleftrightarrow>
        (\<forall>j<n. \<forall>sj. iter j (init gp pp sel) = Inr sj \<longrightarrow> first_reached sj = None))
     \<and> (\<forall>j<n. \<forall>sj q. iter j (init gp pp sel) = Inr sj \<longrightarrow>
           (\<forall>i<j. \<forall>si. iter i (init gp pp sel) = Inr si \<longrightarrow> first_reached si = None) \<longrightarrow>
           first_reached sj = Some q \<longrightarrow>
           active_phases s \<noteq> [] \<and> phase (hd (active_phases s)) = q
             \<and> pp q = Some (params (hd (active_phases s))))"
proof (induction n arbitrary: s)
  case 0
  then have "s = init gp pp sel" by simp
  then show ?case by (simp add: init_simps)
next
  case (Suc n)
  let ?s0 = "init gp pp sel"
  from Suc.prems obtain sn where sn: "iter n ?s0 = Inr sn" and b: "loop_body sn = Inr s"
    by (rule iter_Suc_endE)
  from Suc.IH [OF sn]
  have IH1: "active_phases sn = [] \<longleftrightarrow>
        (\<forall>j<n. \<forall>sj. iter j ?s0 = Inr sj \<longrightarrow> first_reached sj = None)"
    and IH2: "\<And>j sj q. j < n \<Longrightarrow> iter j ?s0 = Inr sj \<Longrightarrow>
           (\<forall>i<j. \<forall>si. iter i ?s0 = Inr si \<longrightarrow> first_reached si = None) \<Longrightarrow>
           first_reached sj = Some q \<Longrightarrow>
           active_phases sn \<noteq> [] \<and> phase (hd (active_phases sn)) = q
             \<and> pp q = Some (params (hd (active_phases sn)))"
    by blast+
  from b obtain s1 where c: "check_phases (selected_phases sn) sn = Inr s1"
    and a: "active_phases s = active_phases s1"
    by (rule loop_body_after_check)
  from config_iter [OF sn] have pp: "phase_params sn = pp" by (simp add: init_simps)
  from check_phases_head [OF c deployment_inv_iter [OF sn]] a pp
  have keep: "active_phases sn \<noteq> [] \<Longrightarrow> active_phases s \<noteq> []
            \<and> hd (active_phases s) = hd (active_phases sn)"
    and none: "active_phases sn = [] \<Longrightarrow> first_reached sn = None \<Longrightarrow> active_phases s = []"
    and some: "\<And>q. active_phases sn = [] \<Longrightarrow> first_reached sn = Some q \<Longrightarrow>
           active_phases s \<noteq> [] \<and> phase (hd (active_phases s)) = q
             \<and> pp q = Some (params (hd (active_phases s)))"
    by simp_all
  have 1: "active_phases s = [] \<longleftrightarrow>
        (\<forall>j<Suc n. \<forall>sj. iter j ?s0 = Inr sj \<longrightarrow> first_reached sj = None)"
  proof
    assume e: "active_phases s = []"
    with keep have en: "active_phases sn = []" by blast
    with some e have "first_reached sn = None" by (cases "first_reached sn") auto
    with en IH1 sn show "\<forall>j<Suc n. \<forall>sj. iter j ?s0 = Inr sj \<longrightarrow> first_reached sj = None"
      by (auto simp: less_Suc_eq)
  next
    assume q: "\<forall>j<Suc n. \<forall>sj. iter j ?s0 = Inr sj \<longrightarrow> first_reached sj = None"
    then have "\<forall>j<n. \<forall>sj. iter j ?s0 = Inr sj \<longrightarrow> first_reached sj = None"
      using less_SucI by blast
    with IH1 have "active_phases sn = []" by simp
    moreover from q sn have "first_reached sn = None" by blast
    ultimately show "active_phases s = []" by (rule none)
  qed
  have 2: "active_phases s \<noteq> [] \<and> phase (hd (active_phases s)) = q
             \<and> pp q = Some (params (hd (active_phases s)))"
    if j: "j < Suc n" and sj: "iter j ?s0 = Inr sj"
      and quiet: "\<forall>i<j. \<forall>si. iter i ?s0 = Inr si \<longrightarrow> first_reached si = None"
      and q: "first_reached sj = Some q" for j sj q
  proof (cases "j = n")
    case True
    with sj sn have "sj = sn" by simp
    moreover from True quiet IH1 have "active_phases sn = []" by simp
    ultimately show ?thesis using q some by simp
  next
    case False
    with j have "j < n" by simp
    from IH2 [OF this sj quiet q] keep show ?thesis by simp
  qed
  from 1 2 show ?case by blast
qed

text \<open>
  C5, as amended. In every pass, the mass used for the net acceleration is the payload mass
  of the phase that deployed first: while no threshold has been reached in any pass so far,
  it is the payload mass of the first configured phase; from the first pass in which a
  threshold is reached on, it is the payload mass of the first phase in configured order
  among those reaching their threshold in that pass, and it stays that phase's mass when
  further phases deploy later, whatever their place in the configured order.
\<close>

theorem pass_mass_first_deployed:
  assumes "iter k (init gp pp sel) = Inr sk" and "pass_mass sk = Inr m"
  shows "((\<forall>j\<le>k. \<forall>sj. iter j (init gp pp sel) = Inr sj \<longrightarrow> first_reached sj = None) \<longrightarrow>
            (\<exists>p ps pr. sel = p # ps \<and> pp p = Some pr \<and> m = payload_mass pr))
     \<and> (\<forall>j\<le>k. \<forall>sj q. iter j (init gp pp sel) = Inr sj \<longrightarrow>
           (\<forall>i<j. \<forall>si. iter i (init gp pp sel) = Inr si \<longrightarrow> first_reached si = None) \<longrightarrow>
           first_reached sj = Some q \<longrightarrow>
           (\<exists>pr. pp q = Some pr \<and> m = payload_mass pr))"
proof -
  let ?s0 = "init gp pp sel"
  from assms(2) obtain s1 where c: "check_phases (selected_phases sk) sk = Inr s1"
    and g: "get_current_mass s1 = Inr m"
    by (rule pass_mass_elim)
  from config_iter [OF assms(1)] have cfg: "phase_params sk = pp" "selected_phases sk = sel"
    by (simp_all add: init_simps)
  from check_phases_unchanged_aux [OF c] cfg
  have cfg1: "phase_params s1 = pp" "selected_phases s1 = sel" by simp_all
  from check_phases_head [OF c deployment_inv_iter [OF assms(1)]] cfg
  have keep: "active_phases sk \<noteq> [] \<Longrightarrow> active_phases s1 \<noteq> []
            \<and> hd (active_phases s1) = hd (active_phases sk)"
    and none: "active_phases sk = [] \<Longrightarrow> first_reached sk = None \<Longrightarrow> active_phases s1 = []"
    and some: "\<And>q. active_phases sk = [] \<Longrightarrow> first_reached sk = Some q \<Longrightarrow>
           active_phases s1 \<noteq> [] \<and> phase (hd (active_phases s1)) = q
             \<and> pp q = Some (params (hd (active_phases s1)))"
    by simp_all
  from active_head_iter [OF assms(1)]
  have H1: "active_phases sk = [] \<longleftrightarrow>
        (\<forall>j<k. \<forall>sj. iter j ?s0 = Inr sj \<longrightarrow> first_reached sj = None)"
    and H2: "\<And>j sj q. j < k \<Longrightarrow> iter j ?s0 = Inr sj \<Longrightarrow>
           (\<forall>i<j. \<forall>si. iter i ?s0 = Inr si \<longrightarrow> first_reached si = None) \<Longrightarrow>
           first_reached sj = Some q \<Longrightarrow>
           active_phases sk \<noteq> [] \<and> phase (hd (active_phases sk)) = q
             \<and> pp q = Some (params (hd (active_phases sk)))"
    by blast+
  have head: "m = payload_mass (params (hd (active_phases s1)))" if "active_phases s1 \<noteq> []"
    using that g by (cases "active_phases s1") (simp_all add: get_current_mass_def)
  have A: "\<exists>p ps pr. sel = p # ps \<and> pp p = Some pr \<and> m = payload_mass pr"
    if quiet: "\<forall>j\<le>k. \<forall>sj. iter j ?s0 = Inr sj \<longrightarrow> first_reached sj = None"
  proof -
    from quiet have "\<forall>j<k. \<forall>sj. iter j ?s0 = Inr sj \<longrightarrow> first_reached sj = None"
      using less_imp_le by blast
    with H1 have "active_phases sk = []" by simp
    moreover from quiet assms(1) have "first_reached sk = None" by blast
    ultimately have "active_phases s1 = []" by (rule none)
    with g cfg1 show ?thesis
      by (auto simp: get_current_mass_def split: list.splits option.splits)
  qed
  have B: "\<exists>pr. pp q = Some pr \<and> m = payload_mass pr"
    if j: "j \<le> k" and sj: "iter j ?s0 = Inr sj"
      and quiet: "\<forall>i<j. \<forall>si. iter i ?s0 = Inr si \<longrightarrow> first_reached si = None"
      and q: "first_reached sj = Some q" for j sj q
  proof (cases "j = k")
    case True
    with sj assms(1) have "sj = sk" by simp
    moreover from True quiet H1 have "active_phases sk = []" by simp
    ultimately have "active_phases s1 \<noteq> [] \<and> phase (hd (active_phases s1)) = q
             \<and> pp q = Some (params (hd (active_phases s1)))"
      using q some by simp
    with head show ?thesis by simp
  next
    case False
    with j have "j < k" by simp
    from H2 [OF this sj quiet q] keep
    have "active_phases s1 \<noteq> [] \<and> pp q = Some (params (hd (active_phases s1)))" by simp
    with head show ?thesis by simp
  qed
  from A B show ?thesis by blast
qed

lemma staged_second_pass:
  "\<exists>s1. iter 1 (init staged_globals staged_phases [''Main'', ''Drogue'']) = Inr s1
     \<and> pass_mass s1 = Inr 200 \<and> claimed_pass_mass s1 = Inr 100"
  by (simp add: loop_defs init_def staged_globals_def staged_phases_def
      deploy_phase_def calculate_inflation_time_def calculate_drag_force_def set_last_def
      g_def cos_60 pass_mass_def claimed_pass_mass_def claimed_mass_def then_do_def)

lemma staged_first_reached:
  "first_reached (init staged_globals staged_phases [''Main'', ''Drogue'']) = Some ''Drogue''"
  by (simp add: first_reached_def threshold_reached_def init_def staged_globals_def
      staged_phases_def)

lemma low_release_first_pass:
  "pass_mass (init low_release_globals ground_phases [''Main'']) = Inr 100
     \<and> first_reached (init low_release_globals ground_phases [''Main'']) = None"
  by (simp add: loop_defs init_def low_release_globals_def ground_phases_def
      first_reached_def threshold_reached_def pass_mass_def then_do_def)

theorem pass_mass_first_deployed_witness:
  "(\<exists>s1. iter 1 (init staged_globals staged_phases [''Main'', ''Drogue'']) = Inr s1
       \<and> pass_mass s1 = Inr 200
       \<and> first_reached (init staged_globals staged_phases [''Main'', ''Drogue''])
           = Some ''Drogue''
       \<and> (\<exists>pr. staged_phases ''Drogue'' = Some pr \<and> 200 = payload_mass pr))
   \<and> (iter 0 (init low_release_globals ground_phases [''Main''])
         = Inr (init low_release_globals ground_phases [''Main''])
       \<and> pass_mass (init low_release_globals ground_phases [''Main'']) = Inr 100
       \<and> first_reached (init low_release_globals ground_phases [''Main'']) = None
       \<and> (\<exists>p ps pr. [''Main''] = p # ps \<and> ground_phases p = Some pr
             \<and> 100 = payload_mass pr))"
proof -
  let ?staged = "init staged_globals staged_phases [''Main'', ''Drogue'']"
  let ?low = "init low_release_globals ground_phases [''Main'']"
  from staged_second_pass obtain s1 where s1: "iter 1 ?staged = Inr s1"
    and m1: "pass_mass s1 = Inr 200" by blast
  from pass_mass_first_deployed [OF s1 m1]
  have B: "\<forall>j\<le>1. \<forall>sj q. iter j ?staged = Inr sj \<longrightarrow>
           (\<forall>i<j. \<forall>si. iter i ?staged = Inr si \<longrightarrow> first_reached si = None) \<longrightarrow>
           first_reached sj = Some q \<longrightarrow>
           (\<exists>pr. staged_phases q = Some pr \<and> 200 = payload_mass pr)"
    by (rule conjunct2)
  have "(0::nat) \<le> 1" by simp
  with B have "iter 0 ?staged = Inr ?staged \<longrightarrow>
           (\<forall>i<0. \<forall>si. iter i ?staged = Inr si \<longrightarrow> first_reached si = None) \<longrightarrow>
           first_reached ?staged = Some ''Drogue'' \<longrightarrow>
           (\<exists>pr. staged_phases ''Drogue'' = Some pr \<and> 200 = payload_mass pr)"
    by blast
  with staged_first_reached
  have a: "\<exists>pr. staged_phases ''Drogue'' = Some pr \<and> 200 = payload_mass pr"
    by simp
  have l0: "iter 0 ?low = Inr ?low" by simp
  from low_release_first_pass have m0: "pass_mass ?low = Inr 100"
    and q0: "first_reached ?low = None" by simp_all
  from pass_mass_first_deployed [OF l0 m0]
  have "(\<forall>j\<le>0. \<forall>sj. iter j ?low = Inr sj \<longrightarrow> first_reached sj = None) \<longrightarrow>
            (\<exists>p ps pr. [''Main''] = p # ps \<and> ground_phases p = Some pr
               \<and> 100 = payload_mass pr)"
    by (rule conjunct1)
  moreover from q0 have "\<forall>j\<le>0. \<forall>sj. iter j ?low = Inr sj \<longrightarrow> first_reached sj = None"
    by simp
  ultimately
  have b: "\<exists>p ps pr. [''Main''] = p # ps \<and> ground_phases p = Some pr \<and> 100 = payload_mass pr"
    by (rule mp)
  from s1 m1 staged_first_reached a
  have A: "\<exists>s1. iter 1 ?staged = Inr s1 \<and> pass_mass s1 = Inr 200
       \<and> first_reached ?staged = Some ''Drogue''
       \<and> (\<exists>pr. staged_phases ''Drogue'' = Some pr \<and> 200 = payload_mass pr)"
    by (intro exI [of _ s1] conjI)
  from l0 m0 q0 b
  have C: "iter 0 ?low = Inr ?low \<and> pass_mass ?low = Inr 100 \<and> first_reached ?low = None
       \<and> (\<exists>p ps pr. [''Main''] = p # ps \<and> ground_phases p = Some pr
             \<and> 100 = payload_mass pr)"
    by (intro conjI)
  from A C show ?thesis by (rule conjI)
qed

text \<open>
  C5 as stated fails. With the phases selected in the order \<open>Main\<close>, \<open>Drogue\<close>, the
  drogue deploys in the first pass and the main in the second. In the second pass both are
  deployed and \<open>Main\<close> is the first of them in configured order, with a payload mass of 100,
  but the mass used is 200, that of \<open>Drogue\<close>, the phase that deployed first.
\<close>

theorem configured_order_mass_counterexample:
  "then_do (iter 1 (init staged_globals staged_phases [''Main'', ''Drogue''])) pass_mass
     = Inr 200
   \<and> then_do (iter 1 (init staged_globals staged_phases [''Main'', ''Drogue'']))
       claimed_pass_mass = Inr 100"
proof -
  from staged_second_pass obtain s1
    where "iter 1 (init staged_globals staged_phases [''Main'', ''Drogue'']) = Inr s1"
      and "pass_mass s1 = Inr 200" and "claimed_pass_mass s1 = Inr 100" by blast
  then show ?thesis by (simp add: then_do_simps)
qed

section \<open>A phase deployed at rest\<close>































end
